theory Spec2Isabelle
  imports Main "HOL-Library.Word" "HOL-Library.AList"
begin

section \<open>JavaScript values\<close>

text \<open>
  A JavaScript string is a sequence of 16-bit code units, and \<open>length\<close> counts them.
  \<open>str\<close> writes an ASCII literal as such a sequence.
\<close>

type_synonym jschar = "16 word"
type_synonym jsstring = "jschar list"

definition str :: "string \<Rightarrow> jsstring" where
  "str s = map (\<lambda>c. of_nat (of_char c)) s"

text \<open>
  A value taken from a JSON body, a query string or a socket payload. Strings are kept
  as they are; of any other value only what the handlers look at is kept: whether it is
  \<open>undefined\<close>, and otherwise its truthiness and its \<open>String(v)\<close> coercion.
\<close>

datatype jsval = JUndefined | JString jsstring | JOther bool jsstring

fun truthy :: "jsval \<Rightarrow> bool" where
  "truthy JUndefined = False"
| "truthy (JString s) = (s \<noteq> [])"
| "truthy (JOther b c) = b"

fun toString :: "jsval \<Rightarrow> jsstring" where
  "toString JUndefined = str ''undefined''"
| "toString (JString s) = s"
| "toString (JOther b c) = c"

section \<open>Utility functions\<close>

text \<open>\<open>s.replace(/c/g, rep)\<close> for a single-character pattern.\<close>

definition replaceAll :: "jschar \<Rightarrow> jsstring \<Rightarrow> jsstring \<Rightarrow> jsstring" where
  "replaceAll c rep s = concat (map (\<lambda>x. if x = c then rep else [x]) s)"

text \<open>
  \<open>escapeHtml\<close>: the empty string is falsy and yields the empty string; otherwise the
  five replacements run one after the other, the ampersand first.
  The handlers modelled here call it on strings only.
\<close>

definition escapeHtml :: "jsstring \<Rightarrow> jsstring" where
  "escapeHtml text =
     (if text = [] then []
      else replaceAll 0x27 (str ''&#039;'')
            (replaceAll 0x22 (str ''&quot;'')
              (replaceAll 0x3E (str ''&gt;'')
                (replaceAll 0x3C (str ''&lt;'')
                  (replaceAll 0x26 (str ''&amp;'') text)))))"

text \<open>What the five replacements together make of one code unit.\<close>

definition escapeChar :: "jschar \<Rightarrow> jsstring" where
  "escapeChar c =
     (if c = 0x26 then str ''&amp;''
      else if c = 0x3C then str ''&lt;''
      else if c = 0x3E then str ''&gt;''
      else if c = 0x22 then str ''&quot;''
      else if c = 0x27 then str ''&#039;''
      else [c])"

text \<open>\<open>/^[a-zA-Z0-9_]{3,30}$/.test(name)\<close>, on the string the argument coerces to.\<close>

definition isNameChar :: "jschar \<Rightarrow> bool" where
  "isNameChar c \<longleftrightarrow>
     (0x61 \<le> c \<and> c \<le> 0x7A) \<or> (0x41 \<le> c \<and> c \<le> 0x5A) \<or> (0x30 \<le> c \<and> c \<le> 0x39) \<or> c = 0x5F"

definition isValidAgentName :: "jsstring \<Rightarrow> bool" where
  "isValidAgentName name \<longleftrightarrow> 3 \<le> length name \<and> length name \<le> 30 \<and> list_all isNameChar name"

section \<open>Data structures (in memory)\<close>

type_synonym sid = jsstring

text \<open>A line of a stream: \<open>{time, text, type}\<close>.\<close>

record line =
  line_time :: jsstring
  line_text :: jsstring
  line_type :: jsstring

text \<open>
  A stream object. \<open>viewers\<close> is a JavaScript \<open>Set\<close>: its elements in insertion order,
  without repetition; \<open>peakViewers\<close> and \<open>totalMessages\<close> are the fields of \<open>stats\<close>.
\<close>

record stream =
  token :: jsstring
  active :: bool
  lines :: "line list"
  viewers :: "sid list"
  startedAt :: int
  lastActivity :: int
  peakViewers :: nat
  totalMessages :: nat

record chatMessage =
  user :: jsstring
  chat_text :: jsstring
  chat_time :: int

text \<open>An entry of a rate-limit table: \<open>{count, resetTime}\<close>.\<close>

record window =
  count :: nat
  resetTime :: int

record globalStats =
  totalStreamsToday :: nat
  peakConcurrentViewers :: nat
  allTimePeakViewers :: nat
  totalMessagesToday :: nat
  lastReset :: int

text \<open>The messages that \<open>logActivity\<close> is called with, one constructor per template.\<close>

datatype activity =
    StreamStarted jsstring
  | StreamResumed jsstring
  | TokenRotated jsstring
  | AbuseReport
  | AdminEndedStream jsstring
  | AdminBanned jsstring
  | AdminUnbanned jsstring
  | StreamTimedOut jsstring
  | DailyStatsReset
  | ServerStarted

text \<open>
  The variables that the connection handler closes over, per socket:
  \<open>currentStream\<close> (initially \<open>null\<close>) and \<open>lastChatTime\<close> (initially 0).
\<close>

record conn =
  currentStream :: jsval
  lastChatTime :: int

text \<open>
  The process state. \<open>streams\<close> is a JavaScript \<open>Map\<close> that the code iterates over, so
  its entries are kept in insertion order; the other tables are only looked up by key.
  \<open>conns\<close> holds the closure of every socket whose handlers are registered, and
  \<open>rooms\<close> is the membership that socket.io keeps for the room \<open>stream:\<close>\<^emph>\<open>name\<close>,
  indexed by \<^emph>\<open>name\<close>.
\<close>

record state =
  streams :: "(jsstring \<times> stream) list"
  chatMessages :: "jsstring \<rightharpoonup> chatMessage list"
  bannedAgents :: "jsstring set"
  rateLimits :: "jsstring \<rightharpoonup> window"
  ipConnectionCounts :: "jsstring \<rightharpoonup> window"
  ipStreamCreation :: "jsstring \<rightharpoonup> window"
  activityLog :: "(int \<times> activity) list"
  stats :: globalStats
  conns :: "sid \<rightharpoonup> conn"
  rooms :: "jsstring \<Rightarrow> sid set"

text \<open>
  What the process is started with: the result of \<open>parseInt\<close> on the environment
  variable \<open>MAX_VIEWERS_PER_STREAM\<close> (\<open>None\<close> for \<open>NaN\<close>), the offset of local time from
  UTC in milliseconds, and the first eight hexadecimal digits of the MD5 digest.
\<close>

record config =
  maxViewersEnv :: "int option"
  tzOffset :: int
  md5hex8 :: "jsstring \<Rightarrow> jsstring"

text \<open>\<open>parseInt(process.env.MAX_VIEWERS_PER_STREAM) || 1000\<close>: zero and \<open>NaN\<close> are falsy.\<close>

definition MAX_VIEWERS_PER_STREAM :: "config \<Rightarrow> int" where
  "MAX_VIEWERS_PER_STREAM cfg =
     (case maxViewersEnv cfg of None \<Rightarrow> 1000 | Some v \<Rightarrow> if v = 0 then 1000 else v)"

text \<open>What is sent, and to whom: a room (with its members at that moment) or one socket.\<close>

datatype error_message =
    TooManyConnections | InvalidStreamName | StreamAtCapacity | StreamIsOffline | SlowDown

datatype event =
    StreamLine line
  | StreamOffline
  | ViewerCount nat
  | StreamInit "line list"
  | ChatInit "chatMessage list"
  | ChatMessage chatMessage
  | ErrorEvent error_message

datatype emission = ToRoom jsstring event "sid set" | ToSocket sid event

text \<open>Lookup in \<open>streams\<close>; a key that is not a string is never found.\<close>

definition getStream :: "state \<Rightarrow> jsstring \<Rightarrow> stream option" where
  "getStream s name = map_of (streams s) name"

fun getStreamVal :: "state \<Rightarrow> jsval \<Rightarrow> stream option" where
  "getStreamVal s (JString name) = getStream s name"
| "getStreamVal s _ = None"

text \<open>Assignment to fields of the stream object stored under \<open>name\<close>.\<close>

definition updateStream :: "jsstring \<Rightarrow> (stream \<Rightarrow> stream) \<Rightarrow> state \<Rightarrow> state" where
  "updateStream name f s = s\<lparr>streams := AList.map_entry name f (streams s)\<rparr>"

text \<open>\<open>Set.add\<close> and \<open>Set.delete\<close> on the viewers of a stream.\<close>

definition setAdd :: "sid \<Rightarrow> sid list \<Rightarrow> sid list" where
  "setAdd x xs = (if x \<in> set xs then xs else xs @ [x])"

definition setDelete :: "sid \<Rightarrow> sid list \<Rightarrow> sid list" where
  "setDelete x xs = removeAll x xs"

text \<open>Local wall-clock time: \<open>getHours\<close>, \<open>getMinutes\<close> and \<open>toTimeString().slice(0, 5)\<close>.\<close>

definition getHours :: "config \<Rightarrow> int \<Rightarrow> nat" where
  "getHours cfg now = nat (((now + tzOffset cfg) div 3600000) mod 24)"

definition getMinutes :: "config \<Rightarrow> int \<Rightarrow> nat" where
  "getMinutes cfg now = nat (((now + tzOffset cfg) div 60000) mod 60)"

definition twoDigits :: "nat \<Rightarrow> jsstring" where
  "twoDigits n = [0x30 + of_nat (n div 10), 0x30 + of_nat (n mod 10)]"

definition formatTime :: "config \<Rightarrow> int \<Rightarrow> jsstring" where
  "formatTime cfg now = twoDigits (getHours cfg now) @ [0x3A] @ twoDigits (getMinutes cfg now)"

text \<open>
  \<open>formatTimestamp\<close> renders the UTC time cut to the second; an entry of the activity
  log keeps that second count.
\<close>

definition formatTimestamp :: "int \<Rightarrow> int" where
  "formatTimestamp now = now div 1000"

definition hashSocketId :: "config \<Rightarrow> sid \<Rightarrow> jsstring" where
  "hashSocketId cfg socketId = str ''anon_'' @ md5hex8 cfg socketId"

text \<open>\<open>logActivity\<close>: newest first, at most 50 entries.\<close>

definition logActivity :: "int \<Rightarrow> activity \<Rightarrow> state \<Rightarrow> state" where
  "logActivity now message s =
     (let log = (formatTimestamp now, message) # activityLog s
      in s\<lparr>activityLog := (if length log > 50 then butlast log else log)\<rparr>)"

definition getCurrentViewerCount :: "state \<Rightarrow> nat" where
  "getCurrentViewerCount s =
     fold (\<lambda>(name, stream) total. if active stream then total + length (viewers stream) else total)
       (streams s) 0"

definition updatePeakViewers :: "state \<Rightarrow> state" where
  "updatePeakViewers s =
     (let current = getCurrentViewerCount s;
          g = stats s;
          g1 = (if current > peakConcurrentViewers g then g\<lparr>peakConcurrentViewers := current\<rparr> else g);
          g2 = (if current > allTimePeakViewers g1 then g1\<lparr>allTimePeakViewers := current\<rparr> else g1)
      in s\<lparr>stats := g2\<rparr>)"

section \<open>Rate limiting\<close>

text \<open>
  The three limiters are written out separately in the source; each reads the clock once.
\<close>

definition checkStreamRateLimit :: "int \<Rightarrow> jsstring \<Rightarrow> state \<Rightarrow> bool \<times> state" where
  "checkStreamRateLimit now agentName s =
     (case rateLimits s agentName of
        None \<Rightarrow> (True, s\<lparr>rateLimits := (rateLimits s)(agentName \<mapsto> \<lparr>count = 1, resetTime = now + 60000\<rparr>)\<rparr>)
      | Some limit \<Rightarrow>
          if now > resetTime limit
          then (True, s\<lparr>rateLimits := (rateLimits s)(agentName \<mapsto> \<lparr>count = 1, resetTime = now + 60000\<rparr>)\<rparr>)
          else if count limit \<ge> 100 then (False, s)
          else (True, s\<lparr>rateLimits := (rateLimits s)(agentName \<mapsto> limit\<lparr>count := count limit + 1\<rparr>)\<rparr>))"

definition checkIPConnectionLimit :: "int \<Rightarrow> jsstring \<Rightarrow> state \<Rightarrow> bool \<times> state" where
  "checkIPConnectionLimit now ip s =
     (case ipConnectionCounts s ip of
        None \<Rightarrow> (True, s\<lparr>ipConnectionCounts := (ipConnectionCounts s)(ip \<mapsto> \<lparr>count = 1, resetTime = now + 60000\<rparr>)\<rparr>)
      | Some limit \<Rightarrow>
          if now > resetTime limit
          then (True, s\<lparr>ipConnectionCounts := (ipConnectionCounts s)(ip \<mapsto> \<lparr>count = 1, resetTime = now + 60000\<rparr>)\<rparr>)
          else if count limit \<ge> 10 then (False, s)
          else (True, s\<lparr>ipConnectionCounts := (ipConnectionCounts s)(ip \<mapsto> limit\<lparr>count := count limit + 1\<rparr>)\<rparr>))"

definition checkIPStreamCreationLimit :: "int \<Rightarrow> jsstring \<Rightarrow> state \<Rightarrow> bool \<times> state" where
  "checkIPStreamCreationLimit now ip s =
     (case ipStreamCreation s ip of
        None \<Rightarrow> (True, s\<lparr>ipStreamCreation := (ipStreamCreation s)(ip \<mapsto> \<lparr>count = 1, resetTime = now + 3600000\<rparr>)\<rparr>)
      | Some limit \<Rightarrow>
          if now > resetTime limit
          then (True, s\<lparr>ipStreamCreation := (ipStreamCreation s)(ip \<mapsto> \<lparr>count = 1, resetTime = now + 3600000\<rparr>)\<rparr>)
          else if count limit \<ge> 10 then (False, s)
          else (True, s\<lparr>ipStreamCreation := (ipStreamCreation s)(ip \<mapsto> limit\<lparr>count := count limit + 1\<rparr>)\<rparr>))"

section \<open>HTTP handlers\<close>

text \<open>The error responses, with the status code each is sent with.\<close>

datatype http_error =
    InvalidAgentName
  | AgentBanned
  | TextRequired
  | MessageTooLong
  | InvalidType
  | CreationRateLimit
  | InvalidToken
  | MessageRateLimit
  | StreamNotFound
  | Unauthorized

fun status :: "http_error \<Rightarrow> nat" where
  "status InvalidAgentName = 400"
| "status AgentBanned = 403"
| "status TextRequired = 400"
| "status MessageTooLong = 400"
| "status InvalidType = 400"
| "status CreationRateLimit = 429"
| "status InvalidToken = 401"
| "status MessageRateLimit = 429"
| "status StreamNotFound = 404"
| "status Unauthorized = 401"

text \<open>The success responses: \<open>{success: true, token}\<close> and \<open>{success: true}\<close>.\<close>

datatype http_ok = SuccessToken jsstring | Success

text \<open>
  What the send handler reads of a request: \<open>req.params.agentname\<close>, \<open>req.query.token\<close>,
  the fields \<open>text\<close> and \<open>type\<close> of the body (an object, as \<open>express.json\<close> leaves
  it), and the client address.
\<close>

record sendRequest =
  req_agentname :: jsstring
  req_token :: jsval
  req_text :: jsval
  req_type :: jsval
  req_ip :: jsstring

text \<open>
  A handler runs to completion within one reading \<open>now\<close> of the clock. The token that
  \<open>generateToken\<close> would draw is an argument (\<open>newToken\<close>).
\<close>

text \<open>The branch of the send handler that creates the stream.\<close>

definition send_create ::
  "config \<Rightarrow> int \<Rightarrow> jsstring \<Rightarrow> jsstring \<Rightarrow> jsstring \<Rightarrow> jsstring \<Rightarrow> state \<Rightarrow>
     (http_error + http_ok) \<times> emission list \<times> state" where
  "send_create cfg now newToken agentName text type s =
     (let stream = \<lparr>token = newToken, active = True, lines = [], viewers = [],
                     startedAt = now, lastActivity = now, peakViewers = 0, totalMessages = 0\<rparr>;
          s1 = s\<lparr>streams := AList.update agentName stream (streams s)\<rparr>;
          s2 = s1\<lparr>stats := (stats s1)\<lparr>totalStreamsToday := totalStreamsToday (stats s1) + 1\<rparr>\<rparr>;
          s3 = logActivity now (StreamStarted agentName) s2;
          line = \<lparr>line_time = formatTime cfg now, line_text = escapeHtml text, line_type = type\<rparr>;
          s4 = updateStream agentName
                 (\<lambda>st. st\<lparr>lines := lines st @ [line], totalMessages := totalMessages st + 1\<rparr>) s3;
          s5 = s4\<lparr>stats := (stats s4)\<lparr>totalMessagesToday := totalMessagesToday (stats s4) + 1\<rparr>\<rparr>
      in (Inr (SuccessToken newToken), [ToRoom agentName (StreamLine line) (rooms s5 agentName)], s5))"

text \<open>The branch that appends to an existing stream, after the token and the rate limit.\<close>

definition send_append ::
  "config \<Rightarrow> int \<Rightarrow> jsstring \<Rightarrow> jsstring \<Rightarrow> jsstring \<Rightarrow> stream \<Rightarrow> state \<Rightarrow>
     (http_error + http_ok) \<times> emission list \<times> state" where
  "send_append cfg now agentName text type stream s =
     (let s1 = (if \<not> active stream
                then logActivity now (StreamResumed agentName)
                       (updateStream agentName (\<lambda>st. st\<lparr>active := True, startedAt := now\<rparr>) s)
                else s);
          line = \<lparr>line_time = formatTime cfg now, line_text = escapeHtml text, line_type = type\<rparr>;
          s2 = updateStream agentName
                 (\<lambda>st. st\<lparr>lines := lines st @ [line], totalMessages := totalMessages st + 1\<rparr>) s1;
          s3 = s2\<lparr>stats := (stats s2)\<lparr>totalMessagesToday := totalMessagesToday (stats s2) + 1\<rparr>\<rparr>;
          s4 = updateStream agentName (\<lambda>st. st\<lparr>lastActivity := now\<rparr>) s3;
          s5 = updateStream agentName
                 (\<lambda>st. if length (lines st) > 500 then st\<lparr>lines := tl (lines st)\<rparr> else st) s4
      in (Inr Success, [ToRoom agentName (StreamLine line) (rooms s5 agentName)], s5))"

text \<open>\<open>POST /api/stream/:agentname/send\<close>.\<close>

definition send ::
  "config \<Rightarrow> int \<Rightarrow> jsstring \<Rightarrow> sendRequest \<Rightarrow> state \<Rightarrow>
     (http_error + http_ok) \<times> emission list \<times> state" where
  "send cfg now newToken req s =
     (let agentName = req_agentname req;
          type = (case req_type req of JUndefined \<Rightarrow> JString (str ''log'') | v \<Rightarrow> v)
      in if \<not> isValidAgentName agentName then (Inl InvalidAgentName, [], s)
         else if agentName \<in> bannedAgents s then (Inl AgentBanned, [], s)
         else (case req_text req of
             JString text \<Rightarrow>
               if text = [] then (Inl TextRequired, [], s)
               else if length text > 500 then (Inl MessageTooLong, [], s)
               else if type \<notin> set [JString (str ''log''), JString (str ''tool''), JString (str ''thought'')]
                 then (Inl InvalidType, [], s)
               else (case getStream s agentName of
                   None \<Rightarrow>
                     (case checkIPStreamCreationLimit now (req_ip req) s of
                        (False, s1) \<Rightarrow> (Inl CreationRateLimit, [], s1)
                      | (True, s1) \<Rightarrow> send_create cfg now newToken agentName text (toString type) s1)
                 | Some stream \<Rightarrow>
                     if req_token req \<noteq> JString (token stream) then (Inl InvalidToken, [], s)
                     else (case checkStreamRateLimit now agentName s of
                        (False, s1) \<Rightarrow> (Inl MessageRateLimit, [], s1)
                      | (True, s1) \<Rightarrow> send_append cfg now agentName text (toString type) stream s1))
           | _ \<Rightarrow> (Inl TextRequired, [], s)))"

text \<open>\<open>POST /api/stream/:agentname/rotate\<close>.\<close>

definition rotate ::
  "int \<Rightarrow> jsstring \<Rightarrow> jsstring \<Rightarrow> jsval \<Rightarrow> state \<Rightarrow> (http_error + http_ok) \<times> emission list \<times> state" where
  "rotate now newToken agentName oldToken s =
     (case getStream s agentName of
        None \<Rightarrow> (Inl StreamNotFound, [], s)
      | Some stream \<Rightarrow>
          if oldToken \<noteq> JString (token stream) then (Inl InvalidToken, [], s)
          else (Inr (SuccessToken newToken), [],
                logActivity now (TokenRotated agentName)
                  (updateStream agentName (\<lambda>st. st\<lparr>token := newToken\<rparr>) s)))"

text \<open>\<open>POST /api/report\<close>.\<close>

definition report :: "int \<Rightarrow> state \<Rightarrow> (http_error + http_ok) \<times> emission list \<times> state" where
  "report now s = (Inr Success, [], logActivity now AbuseReport s)"

text \<open>
  The admin endpoints sit behind \<open>requireAdmin\<close>; \<open>privileged\<close> is the outcome of its
  password comparison.
\<close>

definition adminEnd ::
  "int \<Rightarrow> bool \<Rightarrow> jsstring \<Rightarrow> state \<Rightarrow> (http_error + http_ok) \<times> emission list \<times> state" where
  "adminEnd now privileged agentName s =
     (if \<not> privileged then (Inl Unauthorized, [], s)
      else case getStream s agentName of
             None \<Rightarrow> (Inl StreamNotFound, [], s)
           | Some stream \<Rightarrow>
               (let s1 = updateStream agentName (\<lambda>st. st\<lparr>active := False\<rparr>) s
                in (Inr Success, [ToRoom agentName StreamOffline (rooms s1 agentName)],
                    logActivity now (AdminEndedStream agentName) s1)))"

definition ban ::
  "int \<Rightarrow> bool \<Rightarrow> jsstring \<Rightarrow> state \<Rightarrow> (http_error + http_ok) \<times> emission list \<times> state" where
  "ban now privileged agentName s =
     (if \<not> privileged then (Inl Unauthorized, [], s)
      else let s1 = s\<lparr>bannedAgents := insert agentName (bannedAgents s)\<rparr>;
               (es, s2) = (case getStream s1 agentName of
                             Some stream \<Rightarrow>
                               if active stream
                               then ([ToRoom agentName StreamOffline (rooms s1 agentName)],
                                     updateStream agentName (\<lambda>st. st\<lparr>active := False\<rparr>) s1)
                               else ([], s1)
                           | None \<Rightarrow> ([], s1))
           in (Inr Success, es, logActivity now (AdminBanned agentName) s2))"

definition unban ::
  "int \<Rightarrow> bool \<Rightarrow> jsstring \<Rightarrow> state \<Rightarrow> (http_error + http_ok) \<times> emission list \<times> state" where
  "unban now privileged agentName s =
     (if \<not> privileged then (Inl Unauthorized, [], s)
      else (Inr Success, [],
            logActivity now (AdminUnbanned agentName)
              (s\<lparr>bannedAgents := bannedAgents s - {agentName}\<rparr>)))"

section \<open>WebSocket handlers\<close>

text \<open>
  The connection handler: when the address is over its limit the socket is told so and
  disconnected, and no handler is registered for it; otherwise its closure starts with
  \<open>currentStream = null\<close> and \<open>lastChatTime = 0\<close>.
\<close>

definition connection :: "int \<Rightarrow> sid \<Rightarrow> jsstring \<Rightarrow> state \<Rightarrow> emission list \<times> state" where
  "connection now socketId clientIP s =
     (case checkIPConnectionLimit now clientIP s of
        (False, s1) \<Rightarrow> ([ToSocket socketId (ErrorEvent TooManyConnections)], s1)
      | (True, s1) \<Rightarrow>
          ([], s1\<lparr>conns := (conns s1)(socketId \<mapsto>
                   \<lparr>currentStream = JOther False (str ''null''), lastChatTime = 0\<rparr>)\<rparr>))"

text \<open>
  The first part of the join handler, \<open>if (currentStream) { ... }\<close>: leave the room of the
  previous stream and, when that stream exists, delete the socket from its viewers and
  tell the room the new count.
\<close>

definition leavePrevious :: "sid \<Rightarrow> jsval \<Rightarrow> state \<Rightarrow> emission list \<times> state" where
  "leavePrevious socketId cur s =
     (if truthy cur
      then let room = toString cur;
               s1 = s\<lparr>rooms := (rooms s)(room := rooms s room - {socketId})\<rparr>
           in (case getStreamVal s1 cur of
                 Some prevStream \<Rightarrow>
                   ([ToRoom room (ViewerCount (length (setDelete socketId (viewers prevStream))))
                       (rooms s1 room)],
                    updateStream room (\<lambda>st. st\<lparr>viewers := setDelete socketId (viewers st)\<rparr>) s1)
               | None \<Rightarrow> ([], s1))
      else ([], s))"

text \<open>
  The join handler, on a payload object whose field \<open>agentName\<close> is any value.
  \<open>stream\<close> is fetched before the previous room is left, but it is a
  reference to the stream object, so what the capacity test reads is the viewer set after
  the deletion above. A socket without registered handlers has no join handler.
\<close>

definition join :: "config \<Rightarrow> sid \<Rightarrow> jsval \<Rightarrow> state \<Rightarrow> emission list \<times> state" where
  "join cfg socketId agentName s =
     (case conns s socketId of
        None \<Rightarrow> ([], s)
      | Some c \<Rightarrow>
          if \<not> truthy agentName then ([ToSocket socketId (ErrorEvent InvalidStreamName)], s)
          else if \<not> isValidAgentName (toString agentName)
            then ([ToSocket socketId (ErrorEvent InvalidStreamName)], s)
          else
            let (es1, s1) = leavePrevious socketId (currentStream c) s;
                room = toString agentName;
                s2 = s1\<lparr>conns := (conns s1)(socketId \<mapsto> c\<lparr>currentStream := agentName\<rparr>),
                        rooms := (rooms s1)(room := insert socketId (rooms s1 room))\<rparr>
            in (case getStreamVal s2 agentName of
                  Some stream \<Rightarrow>
                    if int (length (viewers stream)) \<ge> MAX_VIEWERS_PER_STREAM cfg
                    then (es1 @ [ToSocket socketId (ErrorEvent StreamAtCapacity)], s2)
                    else
                      let s3 = updateStream room (\<lambda>st. st\<lparr>viewers := setAdd socketId (viewers st)\<rparr>) s2;
                          s4 = updateStream room
                                 (\<lambda>st. if length (viewers st) > peakViewers st
                                       then st\<lparr>peakViewers := length (viewers st)\<rparr> else st) s3;
                          s5 = updatePeakViewers s4;
                          size = length (setAdd socketId (viewers stream))
                      in (es1 @
                          [ToSocket socketId (StreamInit (lines stream)),
                           ToSocket socketId
                             (ChatInit (case chatMessages s5 room of None \<Rightarrow> [] | Some ms \<Rightarrow> ms)),
                           ToRoom room (ViewerCount size) (rooms s5 room)] @
                          (if \<not> active stream then [ToSocket socketId StreamOffline] else []),
                          s5)
                | None \<Rightarrow>
                    (es1 @ [ToSocket socketId (StreamInit []), ToSocket socketId (ChatInit [])], s2)))"

text \<open>\<open>String.prototype.trim\<close>: white space and line terminators, as code units.\<close>

definition isWhiteSpace :: "jschar \<Rightarrow> bool" where
  "isWhiteSpace c \<longleftrightarrow>
     c \<in> set [0x09, 0x0A, 0x0B, 0x0C, 0x0D, 0x20, 0xA0, 0x1680, 0x2028, 0x2029, 0x202F, 0x205F,
              0x3000, 0xFEFF]
     \<or> (0x2000 \<le> c \<and> c \<le> 0x200A)"

definition trim :: "jsstring \<Rightarrow> jsstring" where
  "trim t = rev (dropWhile isWhiteSpace (rev (dropWhile isWhiteSpace t)))"

text \<open>
  How a socket handler ends: it returns, or it throws. The chat handler throws a
  \<open>TypeError\<close> at \<open>text.slice(0, 200).trim()\<close> when \<open>text\<close> is truthy and not a string,
  after \<open>lastChatTime\<close> has been assigned.
\<close>

datatype outcome = Returned | ThrewTypeError

definition chatSend ::
  "config \<Rightarrow> int \<Rightarrow> sid \<Rightarrow> jsval \<Rightarrow> state \<Rightarrow> outcome \<times> emission list \<times> state" where
  "chatSend cfg now socketId text s =
     (case conns s socketId of
        None \<Rightarrow> (Returned, [], s)
      | Some c \<Rightarrow>
          if \<not> truthy (currentStream c) \<or> \<not> truthy text then (Returned, [], s)
          else (case getStreamVal s (currentStream c) of
              None \<Rightarrow> (Returned, [ToSocket socketId (ErrorEvent StreamIsOffline)], s)
            | Some stream \<Rightarrow>
                if \<not> active stream
                then (Returned, [ToSocket socketId (ErrorEvent StreamIsOffline)], s)
                else if now - lastChatTime c < 6000
                then (Returned, [ToSocket socketId (ErrorEvent SlowDown)], s)
                else
                  let s1 = s\<lparr>conns := (conns s)(socketId \<mapsto> c\<lparr>lastChatTime := now\<rparr>)\<rparr>
                  in (case text of
                        JString t \<Rightarrow>
                          let sanitizedText = escapeHtml (trim (take 200 t))
                          in if sanitizedText = [] then (Returned, [], s1)
                             else
                               let message = \<lparr>user = hashSocketId cfg socketId,
                                              chat_text = sanitizedText, chat_time = now\<rparr>;
                                   room = toString (currentStream c);
                                   messages = (case chatMessages s1 room of None \<Rightarrow> [] | Some ms \<Rightarrow> ms);
                                   pushed = messages @ [message];
                                   kept = (if length pushed > 200 then tl pushed else pushed);
                                   s2 = s1\<lparr>chatMessages := (chatMessages s1)(room \<mapsto> kept)\<rparr>
                               in (Returned, [ToRoom room (ChatMessage message) (rooms s2 room)], s2)
                      | _ \<Rightarrow> (ThrewTypeError, [], s1))))"

text \<open>
  The disconnect handler. socket.io has taken the socket out of every room before it
  emits \<open>disconnect\<close>; afterwards the socket and its closure are gone.
\<close>

definition disconnect :: "sid \<Rightarrow> state \<Rightarrow> emission list \<times> state" where
  "disconnect socketId s =
     (case conns s socketId of
        None \<Rightarrow> ([], s)
      | Some c \<Rightarrow>
          let s1 = s\<lparr>rooms := (\<lambda>room. rooms s room - {socketId})\<rparr>;
              (es, s2) =
                (if truthy (currentStream c)
                 then (case getStreamVal s1 (currentStream c) of
                         Some stream \<Rightarrow>
                           ([ToRoom (toString (currentStream c))
                               (ViewerCount (length (setDelete socketId (viewers stream))))
                               (rooms s1 (toString (currentStream c)))],
                            updateStream (toString (currentStream c))
                              (\<lambda>st. st\<lparr>viewers := setDelete socketId (viewers st)\<rparr>) s1)
                       | None \<Rightarrow> ([], s1))
                 else ([], s1))
          in (es, s2\<lparr>conns := (conns s2)(socketId := None)\<rparr>))"

section \<open>Cleanup and maintenance\<close>

definition INACTIVE_TIMEOUT :: int where
  "INACTIVE_TIMEOUT = 5 * 60 * 1000"

text \<open>
  The body of the sweep, entry by entry in the order of the \<open>Map\<close>: the visited stream
  object is set offline in place, its room is told, and the activity is logged.
\<close>

fun sweepEntries ::
  "int \<Rightarrow> (jsstring \<times> stream) list \<Rightarrow> state \<Rightarrow> (jsstring \<times> stream) list \<times> emission list \<times> state" where
  "sweepEntries now [] s = ([], [], s)"
| "sweepEntries now ((name, stream) # rest) s =
     (if active stream \<and> now - lastActivity stream > INACTIVE_TIMEOUT
      then let (rest', es, s') = sweepEntries now rest (logActivity now (StreamTimedOut name) s)
           in ((name, stream\<lparr>active := False\<rparr>) # rest',
               ToRoom name StreamOffline (rooms s name) # es, s')
      else let (rest', es, s') = sweepEntries now rest s
           in ((name, stream) # rest', es, s'))"

definition timeoutSweep :: "int \<Rightarrow> state \<Rightarrow> emission list \<times> state" where
  "timeoutSweep now s =
     (let (entries, es, s') = sweepEntries now (streams s) s
      in (es, s'\<lparr>streams := entries\<rparr>))"

text \<open>The body of the daily-reset timer, run at a tick whose clock reading is \<open>now\<close>.\<close>

definition dailyReset :: "config \<Rightarrow> int \<Rightarrow> state \<Rightarrow> state" where
  "dailyReset cfg now s =
     (if getHours cfg now = 0 \<and> getMinutes cfg now = 0
      then logActivity now DailyStatsReset
             (s\<lparr>stats := (stats s)\<lparr>totalStreamsToday := 0, peakConcurrentViewers := 0,
                                    totalMessagesToday := 0, lastReset := now\<rparr>\<rparr>)
      else s)"

text \<open>
  The \<open>SIGTERM\<close> handler tells the room of every stream that the stream is offline,
  before it closes the server.
\<close>

definition sigterm :: "state \<Rightarrow> emission list" where
  "sigterm s = map (\<lambda>(name, stream). ToRoom name StreamOffline (rooms s name)) (streams s)"

text \<open>The condition under which the sweep sets a stream offline.\<close>

definition stale :: "int \<Rightarrow> stream \<Rightarrow> bool" where
  "stale now stream \<longleftrightarrow> active stream \<and> now - lastActivity stream > INACTIVE_TIMEOUT"

section \<open>The server as a transition system\<close>

text \<open>
  The state at start-up: every table empty, the counters zero, \<open>lastReset\<close> the clock
  reading \<open>t0\<close> at load time, and the entry that the \<open>listen\<close> callback logs at \<open>t1\<close>.
\<close>

definition startup :: "int \<Rightarrow> int \<Rightarrow> state" where
  "startup t0 t1 =
     logActivity t1 ServerStarted
       \<lparr>streams = [], chatMessages = Map.empty, bannedAgents = {}, rateLimits = Map.empty,
        ipConnectionCounts = Map.empty, ipStreamCreation = Map.empty, activityLog = [],
        stats = \<lparr>totalStreamsToday = 0, peakConcurrentViewers = 0, allTimePeakViewers = 0,
                 totalMessagesToday = 0, lastReset = t0\<rparr>,
        conns = Map.empty, rooms = (\<lambda>room. {})\<rparr>"

text \<open>
  Node runs one callback at a time and none of the handlers suspends, so an execution of
  the server, however its requests, socket events and timer ticks overlap on the network,
  is a sequence of whole handler runs. Each carries what it reads from outside: its clock
  reading, the token it would draw, the request or payload.
\<close>

datatype action =
    ASend int jsstring sendRequest
  | ARotate int jsstring jsstring jsval
  | AReport int
  | AAdminEnd int bool jsstring
  | ABan int bool jsstring
  | AUnban int bool jsstring
  | AConnection int sid jsstring
  | AJoin sid jsval
  | AChatSend int sid jsval
  | ADisconnect sid
  | ASweep int
  | ADailyReset int

fun step :: "config \<Rightarrow> action \<Rightarrow> state \<Rightarrow> state" where
  "step cfg (ASend now newToken req) s = snd (snd (send cfg now newToken req s))"
| "step cfg (ARotate now newToken agentName oldToken) s = snd (snd (rotate now newToken agentName oldToken s))"
| "step cfg (AReport now) s = snd (snd (report now s))"
| "step cfg (AAdminEnd now privileged agentName) s = snd (snd (adminEnd now privileged agentName s))"
| "step cfg (ABan now privileged agentName) s = snd (snd (ban now privileged agentName s))"
| "step cfg (AUnban now privileged agentName) s = snd (snd (unban now privileged agentName s))"
| "step cfg (AConnection now socketId clientIP) s = snd (connection now socketId clientIP s)"
| "step cfg (AJoin socketId agentName) s = snd (join cfg socketId agentName s)"
| "step cfg (AChatSend now socketId text) s = snd (snd (chatSend cfg now socketId text s))"
| "step cfg (ADisconnect socketId) s = snd (disconnect socketId s)"
| "step cfg (ASweep now) s = snd (timeoutSweep now s)"
| "step cfg (ADailyReset now) s = dailyReset cfg now s"

text \<open>What a handler run emits: to a room, with the sockets that are in it then, or to one socket.\<close>

fun emissions :: "config \<Rightarrow> action \<Rightarrow> state \<Rightarrow> emission list" where
  "emissions cfg (ASend now newToken req) s = fst (snd (send cfg now newToken req s))"
| "emissions cfg (ARotate now newToken agentName oldToken) s = fst (snd (rotate now newToken agentName oldToken s))"
| "emissions cfg (AReport now) s = fst (snd (report now s))"
| "emissions cfg (AAdminEnd now privileged agentName) s = fst (snd (adminEnd now privileged agentName s))"
| "emissions cfg (ABan now privileged agentName) s = fst (snd (ban now privileged agentName s))"
| "emissions cfg (AUnban now privileged agentName) s = fst (snd (unban now privileged agentName s))"
| "emissions cfg (AConnection now socketId clientIP) s = fst (connection now socketId clientIP s)"
| "emissions cfg (AJoin socketId agentName) s = fst (join cfg socketId agentName s)"
| "emissions cfg (AChatSend now socketId text) s = fst (snd (chatSend cfg now socketId text s))"
| "emissions cfg (ADisconnect socketId) s = fst (disconnect socketId s)"
| "emissions cfg (ASweep now) s = fst (timeoutSweep now s)"
| "emissions cfg (ADailyReset now) s = []"

text \<open>socket.io gives every new connection an identifier that no connected socket has.\<close>

fun enabled :: "action \<Rightarrow> state \<Rightarrow> bool" where
  "enabled (AConnection now socketId clientIP) s = (conns s socketId = None)"
| "enabled _ s = True"

inductive reachable :: "config \<Rightarrow> state \<Rightarrow> bool" for cfg :: config where
  reachable_startup: "reachable cfg (startup t0 t1)"
| reachable_step: "reachable cfg s \<Longrightarrow> enabled a s \<Longrightarrow> reachable cfg (step cfg a s)"

text \<open>A run of the server from a state: the actions in the order in which they are served.\<close>

fun run :: "config \<Rightarrow> action list \<Rightarrow> state \<Rightarrow> state" where
  "run cfg [] s = s"
| "run cfg (a # as) s = run cfg as (step cfg a s)"

text \<open>
  The per-stream limiter called once at each of the given clock readings, for one name:
  the answers in order, and the state after the last call.
\<close>

fun rateLimitCalls :: "int list \<Rightarrow> jsstring \<Rightarrow> state \<Rightarrow> bool list \<times> state" where
  "rateLimitCalls [] agentName s = ([], s)"
| "rateLimitCalls (now # rest) agentName s =
     (let (allowed, s1) = checkStreamRateLimit now agentName s;
          (more, s2) = rateLimitCalls rest agentName s1
      in (allowed # more, s2))"

text \<open>
  The checks of the send handler on the body, which come before the stream is looked up:
  \<open>text\<close> a non-empty string of at most 500 code units, \<open>type\<close> absent or one of the three
  names.
\<close>

definition validMessage :: "sendRequest \<Rightarrow> bool" where
  "validMessage req \<longleftrightarrow>
     (case req_text req of JString text \<Rightarrow> text \<noteq> [] \<and> length text \<le> 500 | _ \<Rightarrow> False)
     \<and> (case req_type req of
          JUndefined \<Rightarrow> True
        | v \<Rightarrow> v \<in> set [JString (str ''log''), JString (str ''tool''), JString (str ''thought'')])"

text \<open>
  What the send handler stores for an accepted message: the text was a non-empty string
  of at most 500 code units and is stored escaped, and the type is one of the three names.
\<close>

definition producedLine :: "config \<Rightarrow> line \<Rightarrow> bool" where
  "producedLine cfg l \<longleftrightarrow>
     (\<exists>now msg ty. msg \<noteq> [] \<and> length msg \<le> 500 \<and> ty \<in> {str ''log'', str ''tool'', str ''thought''}
        \<and> l = \<lparr>line_time = formatTime cfg now, line_text = escapeHtml msg, line_type = ty\<rparr>)"

text \<open>
  Every member of a stream's viewer set is a connected socket whose \<open>currentStream\<close> is
  the name of that stream.
\<close>

definition viewersTracked :: "state \<Rightarrow> bool" where
  "viewersTracked s \<longleftrightarrow>
     (\<forall>n stream sid. getStream s n = Some stream \<longrightarrow> sid \<in> set (viewers stream) \<longrightarrow>
        (\<exists>c. conns s sid = Some c \<and> currentStream c = JString n \<and> n \<noteq> []))"

text \<open>
  Send requests served one after the other, each with its clock reading and the token it
  would draw: the responses in order, and the state after the last.
\<close>

fun sendAll ::
  "config \<Rightarrow> (int \<times> jsstring \<times> sendRequest) list \<Rightarrow> state \<Rightarrow> (http_error + http_ok) list \<times> state" where
  "sendAll cfg [] s = ([], s)"
| "sendAll cfg ((now, newToken, req) # rest) s =
     (let (response, es, s1) = send cfg now newToken req s;
          (responses, s2) = sendAll cfg rest s1
      in (response # responses, s2))"

text \<open>The response that reports a new stream: \<open>{success: true, token}\<close>.\<close>

fun isCreated :: "http_error + http_ok \<Rightarrow> bool" where
  "isCreated (Inr (SuccessToken t)) = True"
| "isCreated _ = False"

text \<open>
  The gates a send passes before a stream is created for it: the name is valid and not
  banned, the body is valid, and the creation limiter allows the client address.
\<close>

definition admitted :: "int \<Rightarrow> sendRequest \<Rightarrow> state \<Rightarrow> bool" where
  "admitted now req s \<longleftrightarrow>
     isValidAgentName (req_agentname req) \<and> req_agentname req \<notin> bannedAgents s \<and> validMessage req
     \<and> fst (checkIPStreamCreationLimit now (req_ip req) s)"

text \<open>
  The three body checks of the send handler one by one, in the order of the source: a
  text is given (a non-empty string), it has at most 500 code units, and the type is
  absent or one of the three names.
\<close>

definition textGiven :: "sendRequest \<Rightarrow> bool" where
  "textGiven req \<longleftrightarrow> (case req_text req of JString text \<Rightarrow> text \<noteq> [] | _ \<Rightarrow> False)"

definition textFits :: "sendRequest \<Rightarrow> bool" where
  "textFits req \<longleftrightarrow> (case req_text req of JString text \<Rightarrow> length text \<le> 500 | _ \<Rightarrow> False)"

definition typeKnown :: "sendRequest \<Rightarrow> bool" where
  "typeKnown req \<longleftrightarrow>
     (case req_type req of
        JUndefined \<Rightarrow> True
      | v \<Rightarrow> v \<in> set [JString (str ''log''), JString (str ''tool''), JString (str ''thought'')])"

section \<open>Example inputs\<close>

text \<open>
  A configuration (variable unset, local time UTC, a constant in place of the digest), a
  send request, and two histories: a stream \<open>Nova1\<close> created by a first send, and the same
  after the name has been banned.
\<close>

definition exampleConfig :: config where
  "exampleConfig = \<lparr>maxViewersEnv = None, tzOffset = 0, md5hex8 = (\<lambda>socketId. str ''d41d8cd9'')\<rparr>"

definition exampleRequest :: "string \<Rightarrow> jsval \<Rightarrow> string \<Rightarrow> sendRequest" where
  "exampleRequest name tok text =
     \<lparr>req_agentname = str name, req_token = tok, req_text = JString (str text),
      req_type = JUndefined, req_ip = str ''10.0.0.1''\<rparr>"

definition exampleQuotes :: sendRequest where
  "exampleQuotes =
     \<lparr>req_agentname = str ''Nova1'', req_token = JUndefined, req_text = JString (replicate 500 0x22),
      req_type = JUndefined, req_ip = str ''10.0.0.1''\<rparr>"

definition exampleLive :: state where
  "exampleLive =
     run exampleConfig [ASend 1000 (str ''s3cret'') (exampleRequest ''Nova1'' JUndefined ''hello'')]
       (startup 0 0)"

definition exampleBanned :: state where
  "exampleBanned = run exampleConfig [ABan 2000 True (str ''Nova1'')] exampleLive"

text \<open>The stream \<open>Nova1\<close> with one viewer: a socket connects and joins it.\<close>

definition exampleWatched :: state where
  "exampleWatched =
     run exampleConfig
       [AConnection 1500 (str ''sock1'') (str ''10.0.0.2''),
        AJoin (str ''sock1'') (JString (str ''Nova1''))]
       exampleLive"

text \<open>
  \<open>Nova1\<close> after \<open>k\<close> further sends with its token, 60001 ms apart so that each opens a
  new rate-limit window; and the watched stream after \<open>k\<close> chat messages of its viewer,
  6000 ms apart.
\<close>

fun exampleAfter :: "nat \<Rightarrow> state" where
  "exampleAfter 0 = exampleLive"
| "exampleAfter (Suc k) =
     step exampleConfig
       (ASend (1000 + 60001 * int (Suc k)) (str ''unused'')
          (exampleRequest ''Nova1'' (JString (str ''s3cret'')) ''again''))
       (exampleAfter k)"

fun exampleChatted :: "nat \<Rightarrow> state" where
  "exampleChatted 0 = exampleWatched"
| "exampleChatted (Suc k) =
     step exampleConfig (AChatSend (6000 * int (Suc k)) (str ''sock1'') (JString (str ''hi'')))
       (exampleChatted k)"

text \<open>
  A server started with \<open>MAX_VIEWERS_PER_STREAM=1\<close>: two streams, \<open>Nova1\<close> watched by
  \<open>sock1\<close> and \<open>Other1\<close> watched by \<open>sock2\<close>, so that \<open>Nova1\<close> is at capacity.
\<close>

definition exampleSmallConfig :: config where
  "exampleSmallConfig = exampleConfig\<lparr>maxViewersEnv := Some 1\<rparr>"

definition exampleFull :: state where
  "exampleFull =
     run exampleSmallConfig
       [ASend 1000 (str ''s3cret'') (exampleRequest ''Nova1'' JUndefined ''hello''),
        ASend 1100 (str ''t0ken2'') (exampleRequest ''Other1'' JUndefined ''hi''),
        AConnection 1500 (str ''sock1'') (str ''10.0.0.2''),
        AJoin (str ''sock1'') (JString (str ''Nova1'')),
        AConnection 1600 (str ''sock2'') (str ''10.0.0.2''),
        AJoin (str ''sock2'') (JString (str ''Other1''))]
       (startup 0 0)"

text \<open>
  Ten streams created within one hour from the address \<open>10.0.0.1\<close>, which uses up its
  creation allowance.
\<close>

definition exampleTenCreated :: state where
  "exampleTenCreated =
     run exampleConfig
       [ASend 1000 (str ''t0'') (exampleRequest ''Agent0'' JUndefined ''hi''),
        ASend 1001 (str ''t1'') (exampleRequest ''Agent1'' JUndefined ''hi''),
        ASend 1002 (str ''t2'') (exampleRequest ''Agent2'' JUndefined ''hi''),
        ASend 1003 (str ''t3'') (exampleRequest ''Agent3'' JUndefined ''hi''),
        ASend 1004 (str ''t4'') (exampleRequest ''Agent4'' JUndefined ''hi''),
        ASend 1005 (str ''t5'') (exampleRequest ''Agent5'' JUndefined ''hi''),
        ASend 1006 (str ''t6'') (exampleRequest ''Agent6'' JUndefined ''hi''),
        ASend 1007 (str ''t7'') (exampleRequest ''Agent7'' JUndefined ''hi''),
        ASend 1008 (str ''t8'') (exampleRequest ''Agent8'' JUndefined ''hi''),
        ASend 1009 (str ''t9'') (exampleRequest ''Agent9'' JUndefined ''hi'')]
       (startup 0 0)"

section \<open>What the handlers leave alone\<close>

lemma logActivity_fields [simp]:
  "streams (logActivity t m s) = streams s"
  "chatMessages (logActivity t m s) = chatMessages s"
  "bannedAgents (logActivity t m s) = bannedAgents s"
  "rateLimits (logActivity t m s) = rateLimits s"
  "ipConnectionCounts (logActivity t m s) = ipConnectionCounts s"
  "ipStreamCreation (logActivity t m s) = ipStreamCreation s"
  "stats (logActivity t m s) = stats s"
  "conns (logActivity t m s) = conns s"
  "rooms (logActivity t m s) = rooms s"
  by (simp_all add: logActivity_def Let_def)

lemma updateStream_fields [simp]:
  "chatMessages (updateStream n f s) = chatMessages s"
  "bannedAgents (updateStream n f s) = bannedAgents s"
  "rateLimits (updateStream n f s) = rateLimits s"
  "ipConnectionCounts (updateStream n f s) = ipConnectionCounts s"
  "ipStreamCreation (updateStream n f s) = ipStreamCreation s"
  "activityLog (updateStream n f s) = activityLog s"
  "stats (updateStream n f s) = stats s"
  "conns (updateStream n f s) = conns s"
  "rooms (updateStream n f s) = rooms s"
  by (simp_all add: updateStream_def)

lemma updatePeakViewers_fields [simp]:
  "streams (updatePeakViewers s) = streams s"
  "chatMessages (updatePeakViewers s) = chatMessages s"
  "bannedAgents (updatePeakViewers s) = bannedAgents s"
  "rateLimits (updatePeakViewers s) = rateLimits s"
  "ipConnectionCounts (updatePeakViewers s) = ipConnectionCounts s"
  "ipStreamCreation (updatePeakViewers s) = ipStreamCreation s"
  "activityLog (updatePeakViewers s) = activityLog s"
  "conns (updatePeakViewers s) = conns s"
  "rooms (updatePeakViewers s) = rooms s"
  by (simp_all add: updatePeakViewers_def Let_def)

lemma sweepEntries_fields:
  "sweepEntries now xs s = (ys, es, s') \<Longrightarrow>
     streams s' = streams s \<and> chatMessages s' = chatMessages s \<and> bannedAgents s' = bannedAgents s
     \<and> rateLimits s' = rateLimits s \<and> ipConnectionCounts s' = ipConnectionCounts s
     \<and> ipStreamCreation s' = ipStreamCreation s \<and> stats s' = stats s \<and> conns s' = conns s
     \<and> rooms s' = rooms s"
  by (induction now xs s arbitrary: ys es s' rule: sweepEntries.induct)
     (auto split: if_splits prod.splits)

lemma bannedAgents_send: "bannedAgents (snd (snd (send cfg now tok req s))) = bannedAgents s"
  by (simp add: send_def send_create_def send_append_def checkIPStreamCreationLimit_def
      checkStreamRateLimit_def Let_def split: jsval.splits option.splits)

lemma bannedAgents_join: "bannedAgents (snd (join cfg sid n s)) = bannedAgents s"
  by (simp add: join_def leavePrevious_def Let_def split: jsval.splits option.splits prod.splits)

lemma bannedAgents_chatSend: "bannedAgents (snd (snd (chatSend cfg now sid t s))) = bannedAgents s"
  by (simp add: chatSend_def Let_def split: jsval.splits option.splits)

lemma bannedAgents_disconnect: "bannedAgents (snd (disconnect sid s)) = bannedAgents s"
  by (simp add: disconnect_def Let_def split: jsval.splits option.splits prod.splits)

lemma bannedAgents_connection: "bannedAgents (snd (connection now sid ip s)) = bannedAgents s"
  by (simp add: connection_def checkIPConnectionLimit_def split: option.splits)

lemma bannedAgents_timeoutSweep: "bannedAgents (snd (timeoutSweep now s)) = bannedAgents s"
  by (auto simp: timeoutSweep_def split: prod.splits dest: sweepEntries_fields)

lemma bannedAgents_step:
  "n \<in> bannedAgents s \<Longrightarrow> \<forall>t. a \<noteq> AUnban t True n \<Longrightarrow> n \<in> bannedAgents (step cfg a s)"
proof (cases a)
  case (AUnban t p m)
  assume "n \<in> bannedAgents s" "\<forall>t. a \<noteq> AUnban t True n"
  with AUnban show ?thesis by (auto simp: unban_def)
qed (simp_all add: bannedAgents_send bannedAgents_join bannedAgents_chatSend bannedAgents_disconnect
      bannedAgents_connection bannedAgents_timeoutSweep rotate_def report_def adminEnd_def ban_def
      dailyReset_def Let_def split: option.splits)

section \<open>Lookups and the example states\<close>

lemma getStream_updateStream:
  "getStream (updateStream k f s) n = (if n = k then map_option f (getStream s k) else getStream s n)"
  by (auto simp: getStream_def updateStream_def map_of_map_entry split: option.splits)

lemmas eval_defs =
  exampleLive_def exampleBanned_def exampleConfig_def exampleRequest_def startup_def send_def
  send_create_def send_append_def checkIPStreamCreationLimit_def checkStreamRateLimit_def
  logActivity_def updateStream_def getStream_def isValidAgentName_def isNameChar_def str_def
  escapeHtml_def replaceAll_def formatTime_def twoDigits_def getHours_def getMinutes_def
  formatTimestamp_def ban_def unban_def validMessage_def Let_def

lemma exampleLive_eq:
  "exampleLive =
     \<lparr>streams = [(str ''Nova1'',
         \<lparr>token = str ''s3cret'', active = True,
          lines = [\<lparr>line_time = str ''00:00'', line_text = str ''hello'', line_type = str ''log''\<rparr>],
          viewers = [], startedAt = 1000, lastActivity = 1000, peakViewers = 0, totalMessages = 1\<rparr>)],
      chatMessages = Map.empty, bannedAgents = {}, rateLimits = Map.empty,
      ipConnectionCounts = Map.empty,
      ipStreamCreation = [str ''10.0.0.1'' \<mapsto> \<lparr>count = 1, resetTime = 3601000\<rparr>],
      activityLog = [(1, StreamStarted (str ''Nova1'')), (0, ServerStarted)],
      stats = \<lparr>totalStreamsToday = 1, peakConcurrentViewers = 0, allTimePeakViewers = 0,
               totalMessagesToday = 1, lastReset = 0\<rparr>,
      conns = Map.empty, rooms = (\<lambda>room. {})\<rparr>"
  by (simp add: eval_defs)

lemma exampleBanned_eq:
  "exampleBanned =
     \<lparr>streams = [(str ''Nova1'',
         \<lparr>token = str ''s3cret'', active = False,
          lines = [\<lparr>line_time = str ''00:00'', line_text = str ''hello'', line_type = str ''log''\<rparr>],
          viewers = [], startedAt = 1000, lastActivity = 1000, peakViewers = 0, totalMessages = 1\<rparr>)],
      chatMessages = Map.empty, bannedAgents = {str ''Nova1''}, rateLimits = Map.empty,
      ipConnectionCounts = Map.empty,
      ipStreamCreation = [str ''10.0.0.1'' \<mapsto> \<lparr>count = 1, resetTime = 3601000\<rparr>],
      activityLog = [(2, AdminBanned (str ''Nova1'')), (1, StreamStarted (str ''Nova1'')), (0, ServerStarted)],
      stats = \<lparr>totalStreamsToday = 1, peakConcurrentViewers = 0, allTimePeakViewers = 0,
               totalMessagesToday = 1, lastReset = 0\<rparr>,
      conns = Map.empty, rooms = (\<lambda>room. {})\<rparr>"
  by (simp add: exampleBanned_def exampleLive_eq ban_def getStream_def updateStream_def
      logActivity_def formatTimestamp_def Let_def)

lemma getStream_logActivity [simp]: "getStream (logActivity t m s) n = getStream s n"
  by (simp add: getStream_def)

lemma getStream_bannedAgents_update [simp]: "getStream (s\<lparr>bannedAgents := b\<rparr>) n = getStream s n"
  by (simp add: getStream_def)


section \<open>The sweep, and the keys of the stream table\<close>

lemma sweepEntries_entries:
  "fst (sweepEntries now xs s) =
     map (\<lambda>(name, stream). (name, if stale now stream then stream\<lparr>active := False\<rparr> else stream)) xs"
  by (induction now xs s rule: sweepEntries.induct) (auto simp: stale_def split: prod.splits)

lemma sweepEntries_emissions:
  "fst (snd (sweepEntries now xs s)) =
     map (\<lambda>(name, stream). ToRoom name StreamOffline (rooms s name))
       (filter (\<lambda>(name, stream). stale now stream) xs)"
proof (induction now xs s rule: sweepEntries.induct)
  case (1 now s)
  then show ?case by simp
next
  case (2 now name stream rest s)
  then show ?case
    by (auto simp: stale_def split: prod.splits)
qed

lemma sweepEntries_none_stale:
  "\<forall>(name, stream)\<in>set xs. \<not> stale now stream \<Longrightarrow> sweepEntries now xs s = (xs, [], s)"
  by (induction now xs s rule: sweepEntries.induct) (auto simp: stale_def)

lemma timeoutSweep_streams:
  "streams (snd (timeoutSweep now s)) =
     map (\<lambda>(name, stream). (name, if stale now stream then stream\<lparr>active := False\<rparr> else stream)) (streams s)"
  using sweepEntries_entries [of now "streams s" s]
  by (auto simp: timeoutSweep_def split: prod.splits)

lemma timeoutSweep_emissions:
  "fst (timeoutSweep now s) =
     map (\<lambda>(name, stream). ToRoom name StreamOffline (rooms s name))
       (filter (\<lambda>(name, stream). stale now stream) (streams s))"
  using sweepEntries_emissions [of now "streams s" s]
  by (auto simp: timeoutSweep_def split: prod.splits)

lemma timeoutSweep_idempotent: "timeoutSweep now (snd (timeoutSweep now s)) = ([], snd (timeoutSweep now s))"
proof -
  let ?s' = "snd (timeoutSweep now s)"
  have "\<forall>(name, stream)\<in>set (streams ?s'). \<not> stale now stream"
    by (auto simp: timeoutSweep_streams stale_def split: if_splits)
  then have "sweepEntries now (streams ?s') ?s' = (streams ?s', [], ?s')"
    by (rule sweepEntries_none_stale)
  then show ?thesis by (simp add: timeoutSweep_def)
qed

lemma getStream_timeoutSweep:
  "getStream (snd (timeoutSweep now s)) n =
     map_option (\<lambda>stream. if stale now stream then stream\<lparr>active := False\<rparr> else stream) (getStream s n)"
proof -
  have "map_of (map (\<lambda>(name, stream). (name, f stream)) xs) n = map_option f (map_of xs n)"
    for f :: "stream \<Rightarrow> stream" and xs :: "(jsstring \<times> stream) list"
    by (induction xs) auto
  then show ?thesis by (simp add: getStream_def timeoutSweep_streams)
qed

lemma count_offline:
  "distinct (map fst xs) \<Longrightarrow>
   length (filter (\<lambda>e. \<exists>members. e = ToRoom n StreamOffline members)
     (map (\<lambda>(name, stream). ToRoom name StreamOffline (r name)) (filter (\<lambda>(name, stream). stale now stream) xs)))
   = (case map_of xs n of Some stream \<Rightarrow> if stale now stream then 1 else 0 | None \<Rightarrow> 0)"
proof (induction xs)
  case Nil
  then show ?case by simp
next
  case (Cons x xs)
  obtain k v where x: "x = (k, v)" by (cases x)
  show ?case
  proof (cases "k = n")
    case True
    with Cons.prems x have "n \<notin> fst ` set xs" by auto
    then have "map_of xs n = None" by (simp add: map_of_eq_None_iff)
    with Cons True x show ?thesis by simp
  next
    case False
    with Cons x show ?thesis by simp
  qed
qed

lemma map_fst_map_entry: "map fst (AList.map_entry k f xs) = map fst xs"
  by (induction xs) auto

lemma keys_updateStream [simp]: "map fst (streams (updateStream n f s)) = map fst (streams s)"
  by (simp add: updateStream_def map_fst_map_entry)

lemma keys_send:
  "map fst (streams (snd (snd (send cfg now tok req s)))) =
     (if fst (send cfg now tok req s) = Inr (SuccessToken tok) \<and> getStream s (req_agentname req) = None
      then map fst (streams s) @ [req_agentname req] else map fst (streams s))"
  by (auto simp: send_def send_create_def send_append_def checkIPStreamCreationLimit_def
      checkStreamRateLimit_def Let_def update_keys getStream_def map_of_eq_None_iff
      split: jsval.splits option.splits)

lemma keys_join: "map fst (streams (snd (join cfg sid n s))) = map fst (streams s)"
  by (simp add: join_def leavePrevious_def Let_def split: jsval.splits option.splits prod.splits)

lemma keys_chatSend: "map fst (streams (snd (snd (chatSend cfg now sid t s)))) = map fst (streams s)"
  by (simp add: chatSend_def Let_def split: jsval.splits option.splits)

lemma keys_disconnect: "map fst (streams (snd (disconnect sid s))) = map fst (streams s)"
  by (simp add: disconnect_def Let_def split: jsval.splits option.splits prod.splits)

lemma keys_connection: "map fst (streams (snd (connection now sid ip s))) = map fst (streams s)"
  by (simp add: connection_def checkIPConnectionLimit_def split: option.splits)

lemma keys_timeoutSweep: "map fst (streams (snd (timeoutSweep now s))) = map fst (streams s)"
  by (simp add: timeoutSweep_streams split_def comp_def)

lemma keys_step:
  "map fst (streams (step cfg a s)) = map fst (streams s)
   \<or> (\<exists>n. n \<notin> set (map fst (streams s)) \<and> map fst (streams (step cfg a s)) = map fst (streams s) @ [n])"
proof (cases a)
  case (ASend now tok req)
  then show ?thesis
    by (auto simp: keys_send getStream_def map_of_eq_None_iff)
qed (simp_all add: keys_join keys_chatSend keys_disconnect keys_connection keys_timeoutSweep
      rotate_def report_def adminEnd_def ban_def unban_def dailyReset_def Let_def
      split: option.splits)

lemma reachable_distinct: "reachable cfg s \<Longrightarrow> distinct (map fst (streams s))"
proof (induction rule: reachable.induct)
  case (reachable_startup t0 t1)
  then show ?case by (simp add: startup_def)
next
  case (reachable_step s a)
  with keys_step [of cfg a s] show ?case by auto
qed

lemma reachable_exampleLive: "reachable exampleConfig exampleLive"
proof -
  have "exampleLive =
    step exampleConfig (ASend 1000 (str ''s3cret'') (exampleRequest ''Nova1'' JUndefined ''hello''))
      (startup 0 0)"
    by (simp add: exampleLive_def)
  moreover have "enabled (ASend 1000 (str ''s3cret'') (exampleRequest ''Nova1'' JUndefined ''hello''))
      (startup 0 0)"
    by simp
  ultimately show ?thesis
    using reachable_step [OF reachable_startup] by metis
qed

section \<open>How the send handler ends\<close>

lemma getStream_cong: "streams s' = streams s \<Longrightarrow> getStream s' n = getStream s n"
  by (simp add: getStream_def)

lemma getStream_simps [simp]:
  "getStream (s\<lparr>stats := g\<rparr>) n = getStream s n"
  "getStream (s\<lparr>rateLimits := r\<rparr>) n = getStream s n"
  "getStream (s\<lparr>ipStreamCreation := r\<rparr>) n = getStream s n"
  "getStream (s\<lparr>ipConnectionCounts := r\<rparr>) n = getStream s n"
  "getStream (s\<lparr>conns := c\<rparr>) n = getStream s n"
  "getStream (s\<lparr>rooms := ro\<rparr>) n = getStream s n"
  "getStream (s\<lparr>chatMessages := cm\<rparr>) n = getStream s n"
  "getStream (updatePeakViewers s) n = getStream s n"
  "getStream (s\<lparr>streams := AList.update k v (streams s)\<rparr>) n = (if n = k then Some v else getStream s n)"
  by (simp_all add: getStream_def update_conv')

text \<open>The three ways in which the send handler can end.\<close>

lemma send_rejected_invalid:
  "\<not> (isValidAgentName (req_agentname req) \<and> req_agentname req \<notin> bannedAgents s \<and> validMessage req)
   \<Longrightarrow> \<exists>e. send cfg now tok req s = (Inl e, [], s)"
  by (auto simp: send_def validMessage_def Let_def split: jsval.splits)

lemma send_valid:
  assumes "isValidAgentName (req_agentname req)" "req_agentname req \<notin> bannedAgents s"
    "validMessage req"
  shows "\<exists>msg ty. req_text req = JString msg \<and> msg \<noteq> [] \<and> length msg \<le> 500
      \<and> ty \<in> {str ''log'', str ''tool'', str ''thought''}
      \<and> send cfg now tok req s =
        (case getStream s (req_agentname req) of
           None \<Rightarrow>
             (case checkIPStreamCreationLimit now (req_ip req) s of
                (False, s1) \<Rightarrow> (Inl CreationRateLimit, [], s1)
              | (True, s1) \<Rightarrow> send_create cfg now tok (req_agentname req) msg ty s1)
         | Some stream \<Rightarrow>
             if req_token req \<noteq> JString (token stream) then (Inl InvalidToken, [], s)
             else (case checkStreamRateLimit now (req_agentname req) s of
                (False, s1) \<Rightarrow> (Inl MessageRateLimit, [], s1)
              | (True, s1) \<Rightarrow> send_append cfg now (req_agentname req) msg ty stream s1))"
proof -
  let ?ty = "(case req_type req of JUndefined \<Rightarrow> JString (str ''log'') | v \<Rightarrow> v)"
  from assms(3) obtain msg where msg: "req_text req = JString msg" "msg \<noteq> []" "length msg \<le> 500"
    by (auto simp: validMessage_def split: jsval.splits)
  from assms(3) have ty: "?ty \<in> set [JString (str ''log''), JString (str ''tool''), JString (str ''thought'')]"
    by (auto simp: validMessage_def split: jsval.splits)
  then have ty': "toString ?ty \<in> {str ''log'', str ''tool'', str ''thought''}"
    by auto
  have "send cfg now tok req s =
        (case getStream s (req_agentname req) of
           None \<Rightarrow>
             (case checkIPStreamCreationLimit now (req_ip req) s of
                (False, s1) \<Rightarrow> (Inl CreationRateLimit, [], s1)
              | (True, s1) \<Rightarrow> send_create cfg now tok (req_agentname req) msg (toString ?ty) s1)
         | Some stream \<Rightarrow>
             if req_token req \<noteq> JString (token stream) then (Inl InvalidToken, [], s)
             else (case checkStreamRateLimit now (req_agentname req) s of
                (False, s1) \<Rightarrow> (Inl MessageRateLimit, [], s1)
              | (True, s1) \<Rightarrow> send_append cfg now (req_agentname req) msg (toString ?ty) stream s1))"
    unfolding send_def Let_def using assms(1,2) msg ty by simp
  with msg ty' show ?thesis by blast
qed

lemma checkIPStreamCreationLimit_denied:
  "checkIPStreamCreationLimit now ip s = (False, s1) \<Longrightarrow> s1 = s"
  by (auto simp: checkIPStreamCreationLimit_def split: option.splits if_splits)

lemma checkStreamRateLimit_denied:
  "checkStreamRateLimit now n s = (False, s1) \<Longrightarrow> s1 = s"
  by (auto simp: checkStreamRateLimit_def split: option.splits if_splits)

lemma checkIPStreamCreationLimit_frame:
  "checkIPStreamCreationLimit now ip s = (b, s1) \<Longrightarrow>
     streams s1 = streams s \<and> chatMessages s1 = chatMessages s \<and> conns s1 = conns s
     \<and> rooms s1 = rooms s \<and> bannedAgents s1 = bannedAgents s \<and> stats s1 = stats s
     \<and> activityLog s1 = activityLog s \<and> rateLimits s1 = rateLimits s
     \<and> ipConnectionCounts s1 = ipConnectionCounts s"
  by (auto simp: checkIPStreamCreationLimit_def split: option.splits if_splits)

lemma checkStreamRateLimit_frame:
  "checkStreamRateLimit now n s = (b, s1) \<Longrightarrow>
     streams s1 = streams s \<and> chatMessages s1 = chatMessages s \<and> conns s1 = conns s
     \<and> rooms s1 = rooms s \<and> bannedAgents s1 = bannedAgents s \<and> stats s1 = stats s
     \<and> activityLog s1 = activityLog s \<and> ipStreamCreation s1 = ipStreamCreation s
     \<and> ipConnectionCounts s1 = ipConnectionCounts s"
  by (auto simp: checkStreamRateLimit_def split: option.splits if_splits)

text \<open>The three ways in which the send handler can end.\<close>

lemma send_cases:
  obtains (rejected) e where "send cfg now tok req s = (Inl e, [], s)"
  | (created) msg ty s1 where "getStream s (req_agentname req) = None"
      "isValidAgentName (req_agentname req)" "req_agentname req \<notin> bannedAgents s"
      "req_text req = JString msg" "msg \<noteq> []" "length msg \<le> 500"
      "ty \<in> {str ''log'', str ''tool'', str ''thought''}"
      "checkIPStreamCreationLimit now (req_ip req) s = (True, s1)"
      "send cfg now tok req s = send_create cfg now tok (req_agentname req) msg ty s1"
  | (appended) msg ty stream s1 where "getStream s (req_agentname req) = Some stream"
      "isValidAgentName (req_agentname req)" "req_agentname req \<notin> bannedAgents s"
      "req_token req = JString (token stream)"
      "req_text req = JString msg" "msg \<noteq> []" "length msg \<le> 500"
      "ty \<in> {str ''log'', str ''tool'', str ''thought''}"
      "checkStreamRateLimit now (req_agentname req) s = (True, s1)"
      "send cfg now tok req s = send_append cfg now (req_agentname req) msg ty stream s1"
proof (cases "isValidAgentName (req_agentname req) \<and> req_agentname req \<notin> bannedAgents s \<and> validMessage req")
  case False
  then obtain e where "send cfg now tok req s = (Inl e, [], s)"
    using send_rejected_invalid [of req s cfg now tok] by blast
  then show thesis by (rule rejected)
next
  case True
  then have v: "isValidAgentName (req_agentname req)" "req_agentname req \<notin> bannedAgents s"
    "validMessage req" by simp_all
  from send_valid [OF v, of cfg now tok] obtain msg ty where
    m: "req_text req = JString msg" "msg \<noteq> []" "length msg \<le> 500"
       "ty \<in> {str ''log'', str ''tool'', str ''thought''}"
    and eq: "send cfg now tok req s =
        (case getStream s (req_agentname req) of
           None \<Rightarrow>
             (case checkIPStreamCreationLimit now (req_ip req) s of
                (False, s1) \<Rightarrow> (Inl CreationRateLimit, [], s1)
              | (True, s1) \<Rightarrow> send_create cfg now tok (req_agentname req) msg ty s1)
         | Some stream \<Rightarrow>
             if req_token req \<noteq> JString (token stream) then (Inl InvalidToken, [], s)
             else (case checkStreamRateLimit now (req_agentname req) s of
                (False, s1) \<Rightarrow> (Inl MessageRateLimit, [], s1)
              | (True, s1) \<Rightarrow> send_append cfg now (req_agentname req) msg ty stream s1))"
    by blast
  show thesis
  proof (cases "getStream s (req_agentname req)")
    case None
    obtain b s1 where c: "checkIPStreamCreationLimit now (req_ip req) s = (b, s1)"
      by (cases "checkIPStreamCreationLimit now (req_ip req) s")
    show thesis
    proof (cases b)
      case True
      with None c eq
      have "send cfg now tok req s = send_create cfg now tok (req_agentname req) msg ty s1"
        by simp
      with None v(1,2) m c True show thesis
        by (intro created [of msg ty s1]) simp_all
    next
      case False
      with c have "s1 = s" by (simp add: checkIPStreamCreationLimit_denied)
      with None c eq False have "send cfg now tok req s = (Inl CreationRateLimit, [], s)"
        by simp
      then show thesis by (rule rejected)
    qed
  next
    case (Some stream)
    show thesis
    proof (cases "req_token req = JString (token stream)")
      case False
      with Some eq have "send cfg now tok req s = (Inl InvalidToken, [], s)"
        by simp
      then show thesis by (rule rejected)
    next
      case tokok: True
      obtain b s1 where c: "checkStreamRateLimit now (req_agentname req) s = (b, s1)"
        by (cases "checkStreamRateLimit now (req_agentname req) s")
      show thesis
      proof (cases b)
        case True
        with Some c eq tokok
        have "send cfg now tok req s = send_append cfg now (req_agentname req) msg ty stream s1"
          by simp
        with Some v(1,2) m c True tokok show thesis
          by (intro appended [of stream msg ty s1]) simp_all
      next
        case False
        with c have "s1 = s" by (simp add: checkStreamRateLimit_denied)
        with Some c eq False tokok have "send cfg now tok req s = (Inl MessageRateLimit, [], s)"
          by simp
        then show thesis by (rule rejected)
      qed
    qed
  qed
qed

section \<open>The lines of a stream\<close>

lemma getStream_send_create:
  "getStream (snd (snd (send_create cfg now tok n msg ty s))) n' =
     (if n' = n
      then Some \<lparr>token = tok, active = True,
                 lines = [\<lparr>line_time = formatTime cfg now, line_text = escapeHtml msg, line_type = ty\<rparr>],
                 viewers = [], startedAt = now, lastActivity = now, peakViewers = 0, totalMessages = 1\<rparr>
      else getStream s n')"
  by (simp add: send_create_def Let_def getStream_updateStream)

lemma getStream_send_append:
  "getStream s n = Some stream \<Longrightarrow>
   getStream (snd (snd (send_append cfg now n msg ty stream s))) n' =
     (if n' = n
      then Some (stream\<lparr>active := True,
                   startedAt := (if active stream then startedAt stream else now),
                   lines := (let pushed = lines stream @
                                 [\<lparr>line_time = formatTime cfg now, line_text = escapeHtml msg, line_type = ty\<rparr>]
                             in if length pushed > 500 then tl pushed else pushed),
                   totalMessages := totalMessages stream + 1,
                   lastActivity := now\<rparr>)
      else getStream s n')"
  by (cases "active stream") (simp_all add: send_append_def Let_def getStream_updateStream)

lemma send_create_frame:
  "conns (snd (snd (send_create cfg now tok n msg ty s))) = conns s"
  "chatMessages (snd (snd (send_create cfg now tok n msg ty s))) = chatMessages s"
  "rooms (snd (snd (send_create cfg now tok n msg ty s))) = rooms s"
  "bannedAgents (snd (snd (send_create cfg now tok n msg ty s))) = bannedAgents s"
  by (simp_all add: send_create_def Let_def)

lemma send_append_frame:
  "conns (snd (snd (send_append cfg now n msg ty stream s))) = conns s"
  "chatMessages (snd (snd (send_append cfg now n msg ty stream s))) = chatMessages s"
  "rooms (snd (snd (send_append cfg now n msg ty stream s))) = rooms s"
  "bannedAgents (snd (snd (send_append cfg now n msg ty stream s))) = bannedAgents s"
  by (simp_all add: send_append_def Let_def)

text \<open>Handlers other than send leave the lines of every stream as they are.\<close>

lemma lines_updateStream:
  "(\<And>st. lines (f st) = lines st) \<Longrightarrow>
   map_option lines (getStream (updateStream k f s) n) = map_option lines (getStream s n)"
  by (cases "getStream s k") (auto simp: getStream_updateStream)

lemma lines_leavePrevious:
  "map_option lines (getStream (snd (leavePrevious sid cur s)) n) = map_option lines (getStream s n)"
  by (cases cur)
     (simp_all add: leavePrevious_def Let_def lines_updateStream split: option.splits)

lemma lines_join:
  "map_option lines (getStream (snd (join cfg sid a s)) n) = map_option lines (getStream s n)"
proof (cases "conns s sid")
  case None
  then show ?thesis by (simp add: join_def)
next
  case (Some c)
  obtain es1 s1 where l: "leavePrevious sid (currentStream c) s = (es1, s1)"
    by (cases "leavePrevious sid (currentStream c) s")
  have f: "map_option lines (getStream s1 n) = map_option lines (getStream s n)"
    using lines_leavePrevious [of sid "currentStream c" s n] l by simp
  from Some l f show ?thesis
    by (cases a)
       (simp_all add: join_def Let_def lines_updateStream split: option.splits)
qed

lemma lines_chatSend:
  "map_option lines (getStream (snd (snd (chatSend cfg now sid t s))) n) = map_option lines (getStream s n)"
  by (simp add: chatSend_def Let_def split: jsval.splits option.splits)

lemma lines_disconnect:
  "map_option lines (getStream (snd (disconnect sid s)) n) = map_option lines (getStream s n)"
proof (cases "conns s sid")
  case None
  then show ?thesis by (simp add: disconnect_def)
next
  case (Some c)
  then show ?thesis
    by (cases "currentStream c")
       (simp_all add: disconnect_def Let_def lines_updateStream split: option.splits)
qed

lemma lines_connection:
  "map_option lines (getStream (snd (connection now sid ip s)) n) = map_option lines (getStream s n)"
  by (simp add: connection_def checkIPConnectionLimit_def split: option.splits)

lemma lines_timeoutSweep:
  "map_option lines (getStream (snd (timeoutSweep now s)) n) = map_option lines (getStream s n)"
  by (cases "getStream s n") (simp_all add: getStream_timeoutSweep)

lemma lines_step:
  "\<forall>now tok req. a \<noteq> ASend now tok req \<Longrightarrow>
   map_option lines (getStream (step cfg a s) n) = map_option lines (getStream s n)"
  by (cases a)
     (simp_all add: lines_join lines_chatSend lines_disconnect lines_connection lines_timeoutSweep
       rotate_def report_def adminEnd_def ban_def unban_def dailyReset_def Let_def
       lines_updateStream split: option.splits)

lemma reachable_lines:
  "reachable cfg s \<Longrightarrow> getStream s n = Some stream \<Longrightarrow>
     length (lines stream) \<le> 500 \<and> (\<forall>l\<in>set (lines stream). producedLine cfg l)"
proof (induction arbitrary: n stream rule: reachable.induct)
  case (reachable_startup t0 t1)
  then show ?case by (simp add: startup_def getStream_def)
next
  case (reachable_step s a)
  show ?case
  proof (cases "\<exists>now tok req. a = ASend now tok req")
    case False
    then have "map_option lines (getStream (step cfg a s) n) = map_option lines (getStream s n)"
      by (intro lines_step) simp
    with reachable_step.prems obtain st where "getStream s n = Some st" "lines st = lines stream"
      by (cases "getStream s n") auto
    with reachable_step.IH [of n st] show ?thesis by simp
  next
    case True
    then obtain now tok req where a: "a = ASend now tok req" by blast
    show ?thesis
    proof (cases rule: send_cases [of cfg now tok req s])
      case (rejected e)
      with a reachable_step.prems reachable_step.IH [of n stream] show ?thesis by simp
    next
      case (created msg ty s1)
      have g1: "getStream s1 n = getStream s n"
        using checkIPStreamCreationLimit_frame [OF created(8)] by (simp add: getStream_def)
      show ?thesis
      proof (cases "n = req_agentname req")
        case True
        with a created reachable_step.prems
        have "lines stream = [\<lparr>line_time = formatTime cfg now, line_text = escapeHtml msg, line_type = ty\<rparr>]"
          by (auto simp: getStream_send_create)
        moreover have "producedLine cfg \<lparr>line_time = formatTime cfg now, line_text = escapeHtml msg, line_type = ty\<rparr>"
          unfolding producedLine_def using created(5,6,7) by blast
        ultimately show ?thesis by simp
      next
        case False
        with a created reachable_step.prems g1 have "getStream s n = Some stream"
          by (simp add: getStream_send_create)
        with reachable_step.IH show ?thesis by simp
      qed
    next
      case (appended msg ty stream0 s1)
      have g1: "getStream s1 = getStream s"
        using checkStreamRateLimit_frame [OF appended(9)] by (auto simp: getStream_def)
      show ?thesis
      proof (cases "n = req_agentname req")
        case True
        let ?l = "\<lparr>line_time = formatTime cfg now, line_text = escapeHtml msg, line_type = ty\<rparr>"
        let ?pushed = "lines stream0 @ [?l]"
        have g0: "getStream s1 (req_agentname req) = Some stream0"
          using appended(1) g1 by simp
        from a appended(10) reachable_step.prems True getStream_send_append [OF g0, of cfg now msg ty n]
        have ls: "lines stream = (if length ?pushed > 500 then tl ?pushed else ?pushed)"
          by (auto simp: Let_def)
        have ih: "length (lines stream0) \<le> 500 \<and> (\<forall>l\<in>set (lines stream0). producedLine cfg l)"
          using reachable_step.IH [OF appended(1)] .
        have p: "producedLine cfg ?l"
          unfolding producedLine_def using appended(6,7,8) by blast
        have "set (lines stream) \<subseteq> set ?pushed"
          unfolding ls by (auto dest: list.set_sel(2) [rotated])
        with ih p have "\<forall>l\<in>set (lines stream). producedLine cfg l" by auto
        moreover have "length (lines stream) \<le> 500"
          unfolding ls using ih by auto
        ultimately show ?thesis by simp
      next
        case False
        with a appended reachable_step.prems g1 have "getStream s n = Some stream"
          by (simp add: getStream_send_append)
        with reachable_step.IH show ?thesis by simp
      qed
    qed
  qed
qed

section \<open>The chat log, and what an accepted send appends\<close>

lemma chatSend_log:
  "chatMessages (snd (snd (chatSend cfg now sid t s))) n = Some ms' \<Longrightarrow>
     chatMessages s n = Some ms'
     \<or> (\<exists>m. ms' = (let pushed = (case chatMessages s n of None \<Rightarrow> [] | Some ms \<Rightarrow> ms) @ [m]
                    in if length pushed > 200 then tl pushed else pushed))"
  by (auto simp: chatSend_def Let_def split: jsval.splits option.splits if_splits)

lemma chatSend_accepted:
  "chatSend cfg now sid t s = (Returned, [ToRoom room (ChatMessage m) members], s') \<Longrightarrow>
     chatMessages s' room =
       Some (let pushed = (case chatMessages s room of None \<Rightarrow> [] | Some ms \<Rightarrow> ms) @ [m]
             in if length pushed > 200 then tl pushed else pushed)"
  by (auto simp: chatSend_def Let_def split: jsval.splits option.splits if_splits)

lemma chat_join: "chatMessages (snd (join cfg sid a s)) = chatMessages s"
  by (simp add: join_def leavePrevious_def Let_def split: jsval.splits option.splits prod.splits)

lemma chat_disconnect: "chatMessages (snd (disconnect sid s)) = chatMessages s"
  by (simp add: disconnect_def Let_def split: jsval.splits option.splits prod.splits)

lemma chat_connection: "chatMessages (snd (connection now sid ip s)) = chatMessages s"
  by (simp add: connection_def checkIPConnectionLimit_def split: option.splits)

lemma chat_timeoutSweep: "chatMessages (snd (timeoutSweep now s)) = chatMessages s"
  by (auto simp: timeoutSweep_def split: prod.splits dest: sweepEntries_fields)

lemma chat_send: "chatMessages (snd (snd (send cfg now tok req s))) = chatMessages s"
proof (cases rule: send_cases [of cfg now tok req s])
  case (rejected e)
  then show ?thesis by simp
next
  case (created msg ty s1)
  then show ?thesis
    using checkIPStreamCreationLimit_frame [OF created(8)] by (simp add: send_create_frame)
next
  case (appended msg ty stream s1)
  then show ?thesis
    using checkStreamRateLimit_frame [OF appended(9)] by (simp add: send_append_frame)
qed

lemma chat_step:
  "\<forall>now sid t. a \<noteq> AChatSend now sid t \<Longrightarrow> chatMessages (step cfg a s) = chatMessages s"
  by (cases a)
     (simp_all add: chat_join chat_send chat_disconnect chat_connection chat_timeoutSweep
       rotate_def report_def adminEnd_def ban_def unban_def dailyReset_def Let_def
       split: option.splits)

lemma reachable_chat:
  "reachable cfg s \<Longrightarrow> chatMessages s n = Some ms \<Longrightarrow> length ms \<le> 200"
proof (induction arbitrary: n ms rule: reachable.induct)
  case (reachable_startup t0 t1)
  then show ?case by (simp add: startup_def)
next
  case (reachable_step s a)
  show ?case
  proof (cases "\<exists>now sid t. a = AChatSend now sid t")
    case False
    then have "chatMessages (step cfg a s) = chatMessages s"
      by (intro chat_step) simp
    with reachable_step show ?thesis by simp
  next
    case True
    then obtain now sid t where a: "a = AChatSend now sid t" by blast
    with reachable_step.prems chatSend_log [of cfg now sid t s n ms]
    consider "chatMessages s n = Some ms"
      | m where "ms = (let pushed = (case chatMessages s n of None \<Rightarrow> [] | Some ms \<Rightarrow> ms) @ [m]
                    in if length pushed > 200 then tl pushed else pushed)"
      by auto
    then show ?thesis
    proof cases
      case 1
      with reachable_step.IH show ?thesis by simp
    next
      case 2
      show ?thesis
      proof (cases "chatMessages s n")
        case None
        with 2 show ?thesis by (simp add: Let_def)
      next
        case (Some ms0)
        with reachable_step.IH [of n ms0] 2 show ?thesis by (auto simp: Let_def)
      qed
    qed
  qed
qed

lemma send_append_emission:
  "fst (snd (send_append cfg now n msg ty stream s)) =
     [ToRoom n (StreamLine \<lparr>line_time = formatTime cfg now, line_text = escapeHtml msg, line_type = ty\<rparr>)
        (rooms s n)]"
  by (cases "active stream") (simp_all add: send_append_def Let_def)

lemma send_success_appends:
  assumes "getStream s (req_agentname req) = Some stream"
    and "send cfg now tok req s = (Inr Success, es, s')"
  shows "\<exists>l. es = [ToRoom (req_agentname req) (StreamLine l) (rooms s (req_agentname req))]
      \<and> producedLine cfg l
      \<and> map_option lines (getStream s' (req_agentname req)) =
          Some (let pushed = lines stream @ [l] in if length pushed > 500 then tl pushed else pushed)"
proof (cases rule: send_cases [of cfg now tok req s])
  case (rejected e)
  with assms show ?thesis by simp
next
  case (created msg ty s1)
  with assms show ?thesis by simp
next
  case (appended msg ty stream0 s1)
  let ?n = "req_agentname req"
  let ?l = "\<lparr>line_time = formatTime cfg now, line_text = escapeHtml msg, line_type = ty\<rparr>"
  from appended(1) assms(1) have st: "stream0 = stream" by simp
  note fr = checkStreamRateLimit_frame [OF appended(9)]
  have g0: "getStream s1 ?n = Some stream"
    using assms(1) fr by (simp add: getStream_def)
  have p: "producedLine cfg ?l"
    unfolding producedLine_def using appended(6,7,8) by blast
  have es: "es = [ToRoom ?n (StreamLine ?l) (rooms s ?n)]"
    using assms(2) appended(10) fr send_append_emission [of cfg now ?n msg ty stream0 s1] by simp
  have "s' = snd (snd (send_append cfg now ?n msg ty stream s1))"
    using assms(2) appended(10) st by simp
  then have "map_option lines (getStream s' ?n) =
          Some (let pushed = lines stream @ [?l] in if length pushed > 500 then tl pushed else pushed)"
    using getStream_send_append [OF g0, of cfg now msg ty ?n] by simp
  with es p show ?thesis by blast
qed

section \<open>Escaping\<close>

lemma replaceAll_concat:
  "replaceAll c rep (concat xss) = concat (map (replaceAll c rep) xss)"
  by (induction xss) (simp_all add: replaceAll_def)

lemma replaceAll_replaceAll:
  "replaceAll c rep (concat (map f s)) = concat (map (\<lambda>x. replaceAll c rep (f x)) s)"
  by (simp add: replaceAll_concat comp_def)

lemma escapeChar_eq:
  "replaceAll 0x27 (str ''&#039;'')
     (replaceAll 0x22 (str ''&quot;'')
       (replaceAll 0x3E (str ''&gt;'')
         (replaceAll 0x3C (str ''&lt;'') (if x = 0x26 then str ''&amp;'' else [x]))))
   = escapeChar x"
  by (simp add: replaceAll_def escapeChar_def str_def)

lemma escapeHtml_concat: "escapeHtml t = concat (map escapeChar t)"
proof (cases "t = []")
  case True
  then show ?thesis by (simp add: escapeHtml_def)
next
  case False
  have "replaceAll 0x26 (str ''&amp;'') t = concat (map (\<lambda>x. if x = 0x26 then str ''&amp;'' else [x]) t)"
    by (simp add: replaceAll_def)
  then have "escapeHtml t =
    concat (map (\<lambda>x. replaceAll 0x27 (str ''&#039;'')
     (replaceAll 0x22 (str ''&quot;'')
       (replaceAll 0x3E (str ''&gt;'')
         (replaceAll 0x3C (str ''&lt;'') (if x = 0x26 then str ''&amp;'' else [x]))))) t)"
    using False by (simp only: escapeHtml_def replaceAll_replaceAll if_False)
  then show ?thesis by (simp only: escapeChar_eq)
qed

lemma length_escapeChar: "length (escapeChar c) \<le> 6"
  by (simp add: escapeChar_def str_def)

lemma set_escapeChar: "set (escapeChar c) \<inter> {0x3C, 0x3E, 0x22, 0x27} = {}"
  by (simp add: escapeChar_def str_def)

lemma length_escapeHtml: "length (escapeHtml t) \<le> 6 * length t"
proof -
  have "length (concat (map escapeChar t)) \<le> 6 * length t"
  proof (induction t)
    case Nil
    then show ?case by simp
  next
    case (Cons c t)
    with length_escapeChar [of c] show ?case by simp
  qed
  then show ?thesis by (simp add: escapeHtml_concat)
qed

lemma set_escapeHtml: "set (escapeHtml t) \<inter> {0x3C, 0x3E, 0x22, 0x27} = {}"
proof -
  have "set (concat (map escapeChar t)) \<inter> {0x3C, 0x3E, 0x22, 0x27} = {}"
    using set_escapeChar by (induction t) (auto simp: Int_Un_distrib2)
  then show ?thesis by (simp add: escapeHtml_concat)
qed

lemma escapeHtml_quotes: "length (escapeHtml (replicate 500 0x22)) = 3000"
  by (simp add: escapeHtml_concat escapeChar_def str_def length_concat sum_list_replicate)

section \<open>Joining and leaving\<close>

lemma leavePrevious_frame [simp]:
  "conns (snd (leavePrevious sid cur s)) = conns s"
  "chatMessages (snd (leavePrevious sid cur s)) = chatMessages s"
  "bannedAgents (snd (leavePrevious sid cur s)) = bannedAgents s"
  "stats (snd (leavePrevious sid cur s)) = stats s"
  by (cases cur; simp add: leavePrevious_def Let_def split: option.splits)+

lemma leavePrevious_rooms:
  "rooms (snd (leavePrevious sid cur s)) =
     (if truthy cur then (rooms s)(toString cur := rooms s (toString cur) - {sid}) else rooms s)"
  by (cases cur) (simp_all add: leavePrevious_def Let_def split: option.splits)

lemma getStream_leavePrevious:
  "getStream (snd (leavePrevious sid cur s)) n =
     (if truthy cur \<and> cur = JString n
      then map_option (\<lambda>st. st\<lparr>viewers := setDelete sid (viewers st)\<rparr>) (getStream s n)
      else getStream s n)"
  by (cases cur)
     (auto simp: leavePrevious_def Let_def getStream_updateStream split: option.splits)

lemma leavePrevious_emissions:
  "fst (leavePrevious sid cur s) =
     (case (if truthy cur then getStreamVal s cur else None) of
        Some prevStream \<Rightarrow>
          [ToRoom (toString cur) (ViewerCount (length (setDelete sid (viewers prevStream))))
             (rooms s (toString cur) - {sid})]
      | None \<Rightarrow> [])"
  by (cases cur) (simp_all add: leavePrevious_def Let_def split: option.splits)

text \<open>The join handler once the name has passed validation.\<close>

lemma join_valid:
  assumes "conns s sid = Some c" "truthy a" "isValidAgentName (toString a)"
  shows "join cfg sid a s =
    (let s1 = snd (leavePrevious sid (currentStream c) s);
         es1 = fst (leavePrevious sid (currentStream c) s);
         room = toString a;
         s2 = s1\<lparr>conns := (conns s)(sid \<mapsto> c\<lparr>currentStream := a\<rparr>),
                 rooms := (rooms s1)(room := insert sid (rooms s1 room))\<rparr>
     in case getStreamVal s1 a of
          Some stream \<Rightarrow>
            if int (length (viewers stream)) \<ge> MAX_VIEWERS_PER_STREAM cfg
            then (es1 @ [ToSocket sid (ErrorEvent StreamAtCapacity)], s2)
            else (es1 @
                  [ToSocket sid (StreamInit (lines stream)),
                   ToSocket sid (ChatInit (case chatMessages s room of None \<Rightarrow> [] | Some ms \<Rightarrow> ms)),
                   ToRoom room (ViewerCount (length (setAdd sid (viewers stream)))) (rooms s2 room)] @
                  (if \<not> active stream then [ToSocket sid StreamOffline] else []),
                  updatePeakViewers
                    (updateStream room
                       (\<lambda>st. if length (viewers st) > peakViewers st
                             then st\<lparr>peakViewers := length (viewers st)\<rparr> else st)
                       (updateStream room (\<lambda>st. st\<lparr>viewers := setAdd sid (viewers st)\<rparr>) s2)))
        | None \<Rightarrow> (es1 @ [ToSocket sid (StreamInit []), ToSocket sid (ChatInit [])], s2))"
proof -
  obtain es1 s1 where l: "leavePrevious sid (currentStream c) s = (es1, s1)"
    by (cases "leavePrevious sid (currentStream c) s")
  have c1: "conns s1 = conns s" "chatMessages s1 = chatMessages s"
    using leavePrevious_frame(1,2) [of sid "currentStream c" s] l by simp_all
  have g: "getStreamVal (s1\<lparr>conns := cs, rooms := rs\<rparr>) a = getStreamVal s1 a" for cs rs
    by (cases a) (simp_all add: getStream_def)
  show ?thesis
    using assms l c1
    by (simp add: join_def Let_def g split: option.splits)
qed

section \<open>Viewer sets\<close>

lemma viewers_updateStream:
  "(\<And>st. viewers (f st) = viewers st) \<Longrightarrow>
   map_option viewers (getStream (updateStream k f s) n) = map_option viewers (getStream s n)"
  by (cases "getStream s k") (auto simp: getStream_updateStream)

lemma viewers_chatSend:
  "map_option viewers (getStream (snd (snd (chatSend cfg now sid t s))) n) = map_option viewers (getStream s n)"
  by (simp add: chatSend_def Let_def split: jsval.splits option.splits)

lemma viewers_connection:
  "map_option viewers (getStream (snd (connection now sid ip s)) n) = map_option viewers (getStream s n)"
  by (simp add: connection_def checkIPConnectionLimit_def split: option.splits)

lemma viewers_timeoutSweep:
  "map_option viewers (getStream (snd (timeoutSweep now s)) n) = map_option viewers (getStream s n)"
  by (cases "getStream s n") (simp_all add: getStream_timeoutSweep)

lemma viewers_step:
  "\<forall>now tok req. a \<noteq> ASend now tok req \<Longrightarrow> \<forall>sid v. a \<noteq> AJoin sid v \<Longrightarrow>
   \<forall>sid. a \<noteq> ADisconnect sid \<Longrightarrow>
   map_option viewers (getStream (step cfg a s) n) = map_option viewers (getStream s n)"
  by (cases a)
     (simp_all add: viewers_chatSend viewers_connection viewers_timeoutSweep
       rotate_def report_def adminEnd_def ban_def unban_def dailyReset_def Let_def
       viewers_updateStream split: option.splits)

lemma viewers_send:
  assumes "getStream (snd (snd (send cfg now tok req s))) n = Some st'" "x \<in> set (viewers st')"
  shows "\<exists>st. getStream s n = Some st \<and> x \<in> set (viewers st)"
proof (cases rule: send_cases [of cfg now tok req s])
  case (rejected e)
  with assms show ?thesis by simp
next
  case (created msg ty s1)
  have g: "getStream s1 n = getStream s n"
    using checkIPStreamCreationLimit_frame [OF created(8)] by (simp add: getStream_def)
  have "n \<noteq> req_agentname req \<Longrightarrow> getStream s n = Some st'"
    using assms(1) created(9) g by (simp add: getStream_send_create)
  moreover have "n = req_agentname req \<Longrightarrow> viewers st' = []"
    using assms(1) created(9) by (auto simp: getStream_send_create)
  ultimately show ?thesis
    using assms(2) by (cases "n = req_agentname req") auto
next
  case (appended msg ty stream s1)
  have g: "getStream s1 = getStream s"
    using checkStreamRateLimit_frame [OF appended(9)] by (auto simp: getStream_def)
  with appended(1) have "getStream s1 (req_agentname req) = Some stream" by simp
  note e = getStream_send_append [OF this, of cfg now msg ty n]
  have "n \<noteq> req_agentname req \<Longrightarrow> getStream s n = Some st'"
    using assms(1) appended(10) g e by simp
  moreover have "n = req_agentname req \<Longrightarrow> viewers st' = viewers stream"
    using assms(1) appended(10) e by auto
  ultimately show ?thesis
    using assms(2) appended(1) by (cases "n = req_agentname req") auto
qed

lemma conns_send: "conns (snd (snd (send cfg now tok req s))) = conns s"
proof (cases rule: send_cases [of cfg now tok req s])
  case (rejected e)
  then show ?thesis by simp
next
  case (created msg ty s1)
  then show ?thesis
    using checkIPStreamCreationLimit_frame [OF created(8)] by (simp add: send_create_frame)
next
  case (appended msg ty stream s1)
  then show ?thesis
    using checkStreamRateLimit_frame [OF appended(9)] by (simp add: send_append_frame)
qed

lemma conns_timeoutSweep: "conns (snd (timeoutSweep now s)) = conns s"
  by (auto simp: timeoutSweep_def split: prod.splits dest: sweepEntries_fields)

lemma currentStream_chatSend:
  "map_option currentStream (conns (snd (snd (chatSend cfg now sid t s))) x) = map_option currentStream (conns s x)"
  by (simp add: chatSend_def Let_def split: jsval.splits option.splits)

lemma currentStream_step:
  "\<forall>now sid ip. a \<noteq> AConnection now sid ip \<Longrightarrow> \<forall>sid v. a \<noteq> AJoin sid v \<Longrightarrow>
   \<forall>sid. a \<noteq> ADisconnect sid \<Longrightarrow>
   map_option currentStream (conns (step cfg a s) x) = map_option currentStream (conns s x)"
  by (cases a)
     (simp_all add: conns_send conns_timeoutSweep currentStream_chatSend
       rotate_def report_def adminEnd_def ban_def unban_def dailyReset_def Let_def
       split: option.splits)

lemma conns_connection:
  "conns (snd (connection now sid ip s)) x = conns s x
   \<or> (x = sid \<and> conns (snd (connection now sid ip s)) x
                 = Some \<lparr>currentStream = JOther False (str ''null''), lastChatTime = 0\<rparr>)"
  by (simp add: connection_def checkIPConnectionLimit_def split: option.splits)

lemma set_setAdd [simp]: "set (setAdd x xs) = insert x (set xs)"
  by (auto simp: setAdd_def)

lemma set_setDelete [simp]: "set (setDelete x xs) = set xs - {x}"
  by (simp add: setDelete_def)

lemma join_invalid:
  "conns s sid = None \<or> \<not> truthy a \<or> \<not> isValidAgentName (toString a) \<Longrightarrow>
   snd (join cfg sid a s) = s"
  by (auto simp: join_def split: option.splits)

lemma join_conns:
  assumes "conns s sid = Some c" "truthy a" "isValidAgentName (toString a)"
  shows "conns (snd (join cfg sid a s)) = (conns s)(sid \<mapsto> c\<lparr>currentStream := a\<rparr>)"
  unfolding join_valid [OF assms]
  by (simp add: Let_def split: option.splits)

lemma join_viewers_cases:
  assumes c: "conns s sid = Some c" "truthy a" "isValidAgentName (toString a)"
    and g: "getStream (snd (join cfg sid a s)) m = Some st'"
    and x: "x \<in> set (viewers st')"
  shows "(x = sid \<and> a = JString m)
       \<or> (\<exists>st. getStream s m = Some st \<and> x \<in> set (viewers st)
             \<and> \<not> (x = sid \<and> truthy (currentStream c) \<and> currentStream c = JString m))"
proof -
  let ?s1 = "snd (leavePrevious sid (currentStream c) s)"
  have one: "(x = sid \<and> a = JString m) \<or> (\<exists>st1. getStream ?s1 m = Some st1 \<and> x \<in> set (viewers st1))"
  proof (cases "getStreamVal ?s1 a")
    case None
    with g x show ?thesis
      unfolding join_valid [OF c] by (auto simp: Let_def)
  next
    case (Some stream)
    then obtain n where n: "a = JString n" "getStream ?s1 n = Some stream"
      by (cases a) auto
    show ?thesis
    proof (cases "int (length (viewers stream)) \<ge> MAX_VIEWERS_PER_STREAM cfg")
      case True
      with g x Some show ?thesis
        unfolding join_valid [OF c] by (auto simp: Let_def)
    next
      case False
      with g Some n have "getStream
          (updateStream n
             (\<lambda>st. if length (viewers st) > peakViewers st
                   then st\<lparr>peakViewers := length (viewers st)\<rparr> else st)
             (updateStream n (\<lambda>st. st\<lparr>viewers := setAdd sid (viewers st)\<rparr>)
                (?s1\<lparr>conns := (conns s)(sid \<mapsto> c\<lparr>currentStream := a\<rparr>),
                      rooms := (rooms ?s1)(n := insert sid (rooms ?s1 n))\<rparr>))) m = Some st'"
        unfolding join_valid [OF c] by (simp add: Let_def)
      then have "(m = n \<and> set (viewers st') = insert sid (set (viewers stream)))
          \<or> (m \<noteq> n \<and> getStream ?s1 m = Some st')"
        using n(2) by (auto simp: getStream_updateStream split: if_splits)
      with x n show ?thesis by auto
    qed
  qed
  then show ?thesis
  proof
    assume "x = sid \<and> a = JString m"
    then show ?thesis by simp
  next
    assume "\<exists>st1. getStream ?s1 m = Some st1 \<and> x \<in> set (viewers st1)"
    then obtain st1 where st1: "getStream ?s1 m = Some st1" "x \<in> set (viewers st1)"
      by blast
    show ?thesis
    proof (cases "truthy (currentStream c) \<and> currentStream c = JString m")
      case True
      with st1 obtain st where "getStream s m = Some st" "x \<in> set (viewers st)" "x \<noteq> sid"
        by (auto simp: getStream_leavePrevious)
      then show ?thesis by auto
    next
      case False
      with st1 have "getStream s m = Some st1"
        by (auto simp: getStream_leavePrevious)
      with st1 False show ?thesis by auto
    qed
  qed
qed

lemma join_tracked:
  assumes "viewersTracked s"
  shows "viewersTracked (snd (join cfg sid a s))"
proof (cases "conns s sid = None \<or> \<not> truthy a \<or> \<not> isValidAgentName (toString a)")
  case True
  with assms show ?thesis by (simp add: join_invalid)
next
  case False
  then obtain c where c: "conns s sid = Some c" "truthy a" "isValidAgentName (toString a)"
    by auto
  show ?thesis
    unfolding viewersTracked_def
  proof (intro allI impI)
    fix m st' x
    assume g: "getStream (snd (join cfg sid a s)) m = Some st'" and x: "x \<in> set (viewers st')"
    from join_viewers_cases [OF c g x]
    show "\<exists>c'. conns (snd (join cfg sid a s)) x = Some c' \<and> currentStream c' = JString m \<and> m \<noteq> []"
    proof
      assume "x = sid \<and> a = JString m"
      with c(2) join_conns [OF c, of cfg] show ?thesis by auto
    next
      assume "\<exists>st. getStream s m = Some st \<and> x \<in> set (viewers st)
             \<and> \<not> (x = sid \<and> truthy (currentStream c) \<and> currentStream c = JString m)"
      then obtain st where st: "getStream s m = Some st" "x \<in> set (viewers st)"
        "\<not> (x = sid \<and> truthy (currentStream c) \<and> currentStream c = JString m)"
        by blast
      from assms st(1,2) obtain cx where cx: "conns s x = Some cx" "currentStream cx = JString m" "m \<noteq> []"
        unfolding viewersTracked_def by blast
      with st(3) c(1) have "x \<noteq> sid" by auto
      with cx join_conns [OF c, of cfg] show ?thesis by simp
    qed
  qed
qed

lemma disconnect_conns:
  "conns (snd (disconnect sid s)) = (conns s)(sid := None)"
proof (cases "conns s sid")
  case None
  then show ?thesis by (auto simp: disconnect_def)
next
  case (Some c)
  then show ?thesis
    by (cases "currentStream c") (simp_all add: disconnect_def Let_def split: option.splits)
qed

lemma getStream_disconnect:
  "getStream (snd (disconnect sid s)) m =
     (case conns s sid of
        None \<Rightarrow> getStream s m
      | Some c \<Rightarrow>
          if truthy (currentStream c) \<and> currentStream c = JString m
          then map_option (\<lambda>st. st\<lparr>viewers := setDelete sid (viewers st)\<rparr>) (getStream s m)
          else getStream s m)"
proof (cases "conns s sid")
  case None
  then show ?thesis by (simp add: disconnect_def)
next
  case (Some c)
  then show ?thesis
    by (cases "currentStream c")
       (auto simp: disconnect_def Let_def getStream_updateStream split: option.splits)
qed

lemma disconnect_tracked:
  assumes "viewersTracked s"
  shows "viewersTracked (snd (disconnect sid s))"
  unfolding viewersTracked_def
proof (intro allI impI)
  fix m st' x
  assume g: "getStream (snd (disconnect sid s)) m = Some st'" and x: "x \<in> set (viewers st')"
  have "\<exists>st. getStream s m = Some st \<and> x \<in> set (viewers st)
      \<and> \<not> (x = sid \<and> (\<exists>c. conns s sid = Some c \<and> truthy (currentStream c) \<and> currentStream c = JString m))"
    using g x by (auto simp: getStream_disconnect split: option.splits if_splits)
  then obtain st where st: "getStream s m = Some st" "x \<in> set (viewers st)"
    "\<not> (x = sid \<and> (\<exists>c. conns s sid = Some c \<and> truthy (currentStream c) \<and> currentStream c = JString m))"
    by blast
  from assms st(1,2) obtain cx where cx: "conns s x = Some cx" "currentStream cx = JString m" "m \<noteq> []"
    unfolding viewersTracked_def by blast
  with st(3) have "x \<noteq> sid" by auto
  with cx show "\<exists>c. conns (snd (disconnect sid s)) x = Some c \<and> currentStream c = JString m \<and> m \<noteq> []"
    by (simp add: disconnect_conns)
qed

lemma other_tracked:
  assumes inv: "viewersTracked s"
    and a: "\<forall>now tok req. a \<noteq> ASend now tok req" "\<forall>sid v. a \<noteq> AJoin sid v"
      "\<forall>sid. a \<noteq> ADisconnect sid" "\<forall>now sid ip. a \<noteq> AConnection now sid ip"
  shows "viewersTracked (step cfg a s)"
  unfolding viewersTracked_def
proof (intro allI impI)
  fix m st' x
  assume g: "getStream (step cfg a s) m = Some st'" and x: "x \<in> set (viewers st')"
  have "map_option viewers (getStream (step cfg a s) m) = map_option viewers (getStream s m)"
    using a by (intro viewers_step) simp_all
  with g x obtain st where "getStream s m = Some st" "x \<in> set (viewers st)"
    by (cases "getStream s m") auto
  with inv obtain cx where cx: "conns s x = Some cx" "currentStream cx = JString m" "m \<noteq> []"
    unfolding viewersTracked_def by blast
  have "map_option currentStream (conns (step cfg a s) x) = map_option currentStream (conns s x)"
    using a by (intro currentStream_step) simp_all
  with cx show "\<exists>c. conns (step cfg a s) x = Some c \<and> currentStream c = JString m \<and> m \<noteq> []"
    by (cases "conns (step cfg a s) x") auto
qed

lemma reachable_tracked: "reachable cfg s \<Longrightarrow> viewersTracked s"
proof (induction rule: reachable.induct)
  case (reachable_startup t0 t1)
  then show ?case by (simp add: viewersTracked_def startup_def getStream_def)
next
  case (reachable_step s a)
  note inv = reachable_step.IH
  show ?case
  proof (cases a)
    case (AJoin sid v)
    with inv show ?thesis by (simp add: join_tracked)
  next
    case (ADisconnect sid)
    with inv show ?thesis by (simp add: disconnect_tracked)
  next
    case (ASend now tok req)
    show ?thesis
      unfolding viewersTracked_def
    proof (intro allI impI)
      fix m st' x
      assume "getStream (step cfg a s) m = Some st'" "x \<in> set (viewers st')"
      with ASend obtain st where "getStream s m = Some st" "x \<in> set (viewers st)"
        using viewers_send [of cfg now tok req s m st' x] by auto
      with inv ASend show "\<exists>c. conns (step cfg a s) x = Some c \<and> currentStream c = JString m \<and> m \<noteq> []"
        unfolding viewersTracked_def by (simp add: conns_send)
    qed
  next
    case (AConnection now sid ip)
    with reachable_step.hyps have free: "conns s sid = None" by simp
    show ?thesis
      unfolding viewersTracked_def
    proof (intro allI impI)
      fix m st' x
      assume g: "getStream (step cfg a s) m = Some st'" and x: "x \<in> set (viewers st')"
      from AConnection have "map_option viewers (getStream (step cfg a s) m) = map_option viewers (getStream s m)"
        by (simp add: viewers_connection)
      with g x obtain st where "getStream s m = Some st" "x \<in> set (viewers st)"
        by (cases "getStream s m") auto
      with inv obtain cx where cx: "conns s x = Some cx" "currentStream cx = JString m" "m \<noteq> []"
        unfolding viewersTracked_def by blast
      with free have "x \<noteq> sid" by auto
      with cx conns_connection [of now sid ip s x] AConnection
      show "\<exists>c. conns (step cfg a s) x = Some c \<and> currentStream c = JString m \<and> m \<noteq> []"
        by auto
    qed
  qed (rule other_tracked [OF inv]; simp)+
qed

lemma distinct_setAdd: "distinct xs \<Longrightarrow> distinct (setAdd x xs)"
  by (simp add: setAdd_def)

lemma distinct_setDelete: "distinct xs \<Longrightarrow> distinct (setDelete x xs)"
  by (simp add: setDelete_def distinct_removeAll)

lemma viewers_leavePrevious_shape:
  assumes "getStream (snd (leavePrevious sid cur s)) m = Some st1"
  shows "\<exists>st. getStream s m = Some st
     \<and> (viewers st1 = viewers st \<or> viewers st1 = setDelete sid (viewers st))"
  using assms by (auto simp: getStream_leavePrevious split: if_splits)

lemma viewers_join_shape:
  assumes "getStream (snd (join cfg sid a s)) m = Some st'"
  shows "\<exists>st. getStream s m = Some st
     \<and> (viewers st' = viewers st \<or> viewers st' = setDelete sid (viewers st)
        \<or> viewers st' = setAdd sid (viewers st)
        \<or> viewers st' = setAdd sid (setDelete sid (viewers st)))"
proof (cases "conns s sid = None \<or> \<not> truthy a \<or> \<not> isValidAgentName (toString a)")
  case True
  with assms show ?thesis by (simp add: join_invalid)
next
  case False
  then obtain c where c: "conns s sid = Some c" "truthy a" "isValidAgentName (toString a)"
    by auto
  let ?s1 = "snd (leavePrevious sid (currentStream c) s)"
  have "\<exists>st1. getStream ?s1 m = Some st1
      \<and> (viewers st' = viewers st1 \<or> viewers st' = setAdd sid (viewers st1))"
  proof (cases "getStreamVal ?s1 a")
    case None
    with assms show ?thesis
      unfolding join_valid [OF c] by (auto simp: Let_def)
  next
    case (Some stream)
    then obtain n where n: "a = JString n" "getStream ?s1 n = Some stream"
      by (cases a) auto
    show ?thesis
    proof (cases "int (length (viewers stream)) \<ge> MAX_VIEWERS_PER_STREAM cfg")
      case True
      with assms Some show ?thesis
        unfolding join_valid [OF c] by (auto simp: Let_def)
    next
      case False
      with assms Some n have "getStream
          (updateStream n
             (\<lambda>st. if length (viewers st) > peakViewers st
                   then st\<lparr>peakViewers := length (viewers st)\<rparr> else st)
             (updateStream n (\<lambda>st. st\<lparr>viewers := setAdd sid (viewers st)\<rparr>)
                (?s1\<lparr>conns := (conns s)(sid \<mapsto> c\<lparr>currentStream := a\<rparr>),
                      rooms := (rooms ?s1)(n := insert sid (rooms ?s1 n))\<rparr>))) m = Some st'"
        unfolding join_valid [OF c] by (simp add: Let_def)
      then have "(m = n \<and> viewers st' = setAdd sid (viewers stream))
          \<or> (m \<noteq> n \<and> getStream ?s1 m = Some st')"
        using n(2) by (auto simp: getStream_updateStream split: if_splits)
      with n show ?thesis by auto
    qed
  qed
  then obtain st1 where st1: "getStream ?s1 m = Some st1"
    "viewers st' = viewers st1 \<or> viewers st' = setAdd sid (viewers st1)"
    by blast
  from viewers_leavePrevious_shape [OF st1(1)] obtain st where
    "getStream s m = Some st" "viewers st1 = viewers st \<or> viewers st1 = setDelete sid (viewers st)"
    by blast
  with st1(2) show ?thesis by auto
qed

lemma viewers_disconnect_shape:
  assumes "getStream (snd (disconnect sid s)) m = Some st'"
  shows "\<exists>st. getStream s m = Some st
     \<and> (viewers st' = viewers st \<or> viewers st' = setDelete sid (viewers st))"
  using assms by (auto simp: getStream_disconnect split: option.splits if_splits)

lemma viewers_send_shape:
  assumes "getStream (snd (snd (send cfg now tok req s))) n = Some st'"
  shows "viewers st' = [] \<or> (\<exists>st. getStream s n = Some st \<and> viewers st' = viewers st)"
proof (cases rule: send_cases [of cfg now tok req s])
  case (rejected e)
  with assms show ?thesis by simp
next
  case (created msg ty s1)
  have g: "getStream s1 n = getStream s n"
    using checkIPStreamCreationLimit_frame [OF created(8)] by (simp add: getStream_def)
  have "n \<noteq> req_agentname req \<Longrightarrow> getStream s n = Some st'"
    using assms created(9) g by (simp add: getStream_send_create)
  moreover have "n = req_agentname req \<Longrightarrow> viewers st' = []"
    using assms created(9) by (auto simp: getStream_send_create)
  ultimately show ?thesis by (cases "n = req_agentname req") auto
next
  case (appended msg ty stream s1)
  have g: "getStream s1 = getStream s"
    using checkStreamRateLimit_frame [OF appended(9)] by (auto simp: getStream_def)
  with appended(1) have "getStream s1 (req_agentname req) = Some stream" by simp
  note e = getStream_send_append [OF this, of cfg now msg ty n]
  have "n \<noteq> req_agentname req \<Longrightarrow> getStream s n = Some st'"
    using assms appended(10) g e by simp
  moreover have "n = req_agentname req \<Longrightarrow> viewers st' = viewers stream"
    using assms appended(10) e by auto
  ultimately show ?thesis
    using appended(1) by (cases "n = req_agentname req") auto
qed

text \<open>The viewers of a stream, kept as a list, never hold an identifier twice.\<close>

lemma reachable_viewers_distinct:
  "reachable cfg s \<Longrightarrow> getStream s n = Some stream \<Longrightarrow> distinct (viewers stream)"
proof (induction arbitrary: n stream rule: reachable.induct)
  case (reachable_startup t0 t1)
  then show ?case by (simp add: startup_def getStream_def)
next
  case (reachable_step s a)
  note g = reachable_step.prems
  show ?case
  proof (cases a)
    case (AJoin sid v)
    with g viewers_join_shape [of cfg sid v s n stream] obtain st where
      "getStream s n = Some st" "viewers stream = viewers st \<or> viewers stream = setDelete sid (viewers st)
        \<or> viewers stream = setAdd sid (viewers st)
        \<or> viewers stream = setAdd sid (setDelete sid (viewers st))"
      by auto
    with reachable_step.IH [of n st] show ?thesis
      by (auto simp: distinct_setAdd distinct_setDelete)
  next
    case (ADisconnect sid)
    with g viewers_disconnect_shape [of sid s n stream] obtain st where
      "getStream s n = Some st" "viewers stream = viewers st \<or> viewers stream = setDelete sid (viewers st)"
      by auto
    with reachable_step.IH [of n st] show ?thesis
      by (auto simp: distinct_setDelete)
  next
    case (ASend now tok req)
    with g viewers_send_shape [of cfg now tok req s n stream]
    have "viewers stream = [] \<or> (\<exists>st. getStream s n = Some st \<and> viewers stream = viewers st)"
      by simp
    with reachable_step.IH show ?thesis by auto
  qed (use g reachable_step.IH viewers_step [of a cfg s n] in
        \<open>(cases "getStream s n"; fastforce)+\<close>)
qed

lemma exampleWatched_eq:
  "exampleWatched =
     \<lparr>streams = [(str ''Nova1'',
         \<lparr>token = str ''s3cret'', active = True,
          lines = [\<lparr>line_time = str ''00:00'', line_text = str ''hello'', line_type = str ''log''\<rparr>],
          viewers = [str ''sock1''], startedAt = 1000, lastActivity = 1000, peakViewers = 1,
          totalMessages = 1\<rparr>)],
      chatMessages = Map.empty, bannedAgents = {}, rateLimits = Map.empty,
      ipConnectionCounts = [str ''10.0.0.2'' \<mapsto> \<lparr>count = 1, resetTime = 61500\<rparr>],
      ipStreamCreation = [str ''10.0.0.1'' \<mapsto> \<lparr>count = 1, resetTime = 3601000\<rparr>],
      activityLog = [(1, StreamStarted (str ''Nova1'')), (0, ServerStarted)],
      stats = \<lparr>totalStreamsToday = 1, peakConcurrentViewers = 1, allTimePeakViewers = 1,
               totalMessagesToday = 1, lastReset = 0\<rparr>,
      conns = [str ''sock1'' \<mapsto> \<lparr>currentStream = JString (str ''Nova1''), lastChatTime = 0\<rparr>],
      rooms = (\<lambda>room. {})(str ''Nova1'' := {str ''sock1''})\<rparr>"
  by (simp add: exampleWatched_def exampleLive_eq exampleConfig_def connection_def
      checkIPConnectionLimit_def join_def leavePrevious_def isValidAgentName_def isNameChar_def
      str_def getStream_def updateStream_def setAdd_def updatePeakViewers_def
      getCurrentViewerCount_def MAX_VIEWERS_PER_STREAM_def Let_def)

lemma reachable_exampleWatched: "reachable exampleConfig exampleWatched"
proof -
  let ?a1 = "AConnection 1500 (str ''sock1'') (str ''10.0.0.2'')"
  let ?a2 = "AJoin (str ''sock1'') (JString (str ''Nova1''))"
  have e: "enabled ?a1 exampleLive"
    by (simp add: exampleLive_eq)
  have "reachable exampleConfig (step exampleConfig ?a1 exampleLive)"
    using reachable_exampleLive e by (rule reachable_step)
  then have "reachable exampleConfig (step exampleConfig ?a2 (step exampleConfig ?a1 exampleLive))"
    by (rule reachable_step) simp
  moreover have "exampleWatched = step exampleConfig ?a2 (step exampleConfig ?a1 exampleLive)"
    by (simp add: exampleWatched_def)
  ultimately show ?thesis by simp
qed

lemma exampleFull_eq:
  "exampleFull =
     \<lparr>streams =
        [(str ''Nova1'',
          \<lparr>token = str ''s3cret'', active = True,
           lines = [\<lparr>line_time = str ''00:00'', line_text = str ''hello'', line_type = str ''log''\<rparr>],
           viewers = [str ''sock1''], startedAt = 1000, lastActivity = 1000, peakViewers = 1,
           totalMessages = 1\<rparr>),
         (str ''Other1'',
          \<lparr>token = str ''t0ken2'', active = True,
           lines = [\<lparr>line_time = str ''00:00'', line_text = str ''hi'', line_type = str ''log''\<rparr>],
           viewers = [str ''sock2''], startedAt = 1100, lastActivity = 1100, peakViewers = 1,
           totalMessages = 1\<rparr>)],
      chatMessages = Map.empty, bannedAgents = {}, rateLimits = Map.empty,
      ipConnectionCounts = [str ''10.0.0.2'' \<mapsto> \<lparr>count = 2, resetTime = 61500\<rparr>],
      ipStreamCreation = [str ''10.0.0.1'' \<mapsto> \<lparr>count = 2, resetTime = 3601000\<rparr>],
      activityLog = [(1, StreamStarted (str ''Other1'')), (1, StreamStarted (str ''Nova1'')),
                     (0, ServerStarted)],
      stats = \<lparr>totalStreamsToday = 2, peakConcurrentViewers = 2, allTimePeakViewers = 2,
               totalMessagesToday = 2, lastReset = 0\<rparr>,
      conns = [str ''sock1'' \<mapsto> \<lparr>currentStream = JString (str ''Nova1''), lastChatTime = 0\<rparr>,
               str ''sock2'' \<mapsto> \<lparr>currentStream = JString (str ''Other1''), lastChatTime = 0\<rparr>],
      rooms = (\<lambda>room. {})(str ''Nova1'' := {str ''sock1''}, str ''Other1'' := {str ''sock2''})\<rparr>"
  by (simp add: exampleFull_def exampleSmallConfig_def eval_defs connection_def
      checkIPConnectionLimit_def join_def leavePrevious_def setAdd_def updatePeakViewers_def
      getCurrentViewerCount_def MAX_VIEWERS_PER_STREAM_def)
     (simp add: numeral_2_eq_2)

section \<open>Accepted appends\<close>

text \<open>
  A send that passes every check of the handler is answered with success, whatever the
  number of lines stored; likewise a chat message that passes the checks of its handler.
\<close>

lemma send_accepts:
  assumes g: "getStream s (req_agentname req) = Some stream"
    and v: "isValidAgentName (req_agentname req)" "req_agentname req \<notin> bannedAgents s"
    and m: "req_text req = JString msg" "msg \<noteq> []" "length msg \<le> 500"
    and ty: "typeKnown req"
    and tk: "req_token req = JString (token stream)"
    and rl: "fst (checkStreamRateLimit now (req_agentname req) s)"
  shows "send cfg now tok req s =
     send_append cfg now (req_agentname req) msg
       (toString (case req_type req of JUndefined \<Rightarrow> JString (str ''log'') | v \<Rightarrow> v)) stream
       (snd (checkStreamRateLimit now (req_agentname req) s))"
proof -
  let ?ty = "(case req_type req of JUndefined \<Rightarrow> JString (str ''log'') | v \<Rightarrow> v)"
  from ty have ty': "?ty \<in> set [JString (str ''log''), JString (str ''tool''), JString (str ''thought'')]"
    by (auto simp: typeKnown_def split: jsval.splits)
  obtain b s1 where c: "checkStreamRateLimit now (req_agentname req) s = (b, s1)"
    by (cases "checkStreamRateLimit now (req_agentname req) s")
  with rl have b by simp
  with c show ?thesis
    unfolding send_def Let_def using v m ty' g tk by simp
qed

lemma send_append_result:
  "fst (send_append cfg now n msg ty stream s) = Inr Success"
  by (simp add: send_append_def Let_def)

lemma pushed_lines:
  "(let pushed = xs @ [l] in if length pushed > k then tl pushed else pushed)
     = (if length xs < k then xs @ [l] else if xs = [] then [] else tl xs @ [l])"
  by (cases xs) (auto simp: Let_def)

lemma send_accepted_appends:
  assumes g: "getStream s (req_agentname req) = Some stream"
    and v: "isValidAgentName (req_agentname req)" "req_agentname req \<notin> bannedAgents s"
    and m: "req_text req = JString msg" "msg \<noteq> []" "length msg \<le> 500"
    and ty: "typeKnown req"
    and tk: "req_token req = JString (token stream)"
    and rl: "fst (checkStreamRateLimit now (req_agentname req) s)"
  shows "fst (send cfg now tok req s) = Inr Success"
    and "fst (snd (send cfg now tok req s)) =
       [ToRoom (req_agentname req)
          (StreamLine \<lparr>line_time = formatTime cfg now, line_text = escapeHtml msg,
             line_type = toString (case req_type req of JUndefined \<Rightarrow> JString (str ''log'') | v \<Rightarrow> v)\<rparr>)
          (rooms s (req_agentname req))]"
    and "getStream (snd (snd (send cfg now tok req s))) (req_agentname req) =
       Some (stream\<lparr>active := True,
                startedAt := (if active stream then startedAt stream else now),
                lines := (if length (lines stream) < 500
                    then lines stream @ [\<lparr>line_time = formatTime cfg now, line_text = escapeHtml msg,
                       line_type = toString (case req_type req of JUndefined \<Rightarrow> JString (str ''log'') | v \<Rightarrow> v)\<rparr>]
                    else tl (lines stream) @ [\<lparr>line_time = formatTime cfg now, line_text = escapeHtml msg,
                       line_type = toString (case req_type req of JUndefined \<Rightarrow> JString (str ''log'') | v \<Rightarrow> v)\<rparr>]),
                totalMessages := totalMessages stream + 1,
                lastActivity := now\<rparr>)"
proof -
  let ?n = "req_agentname req"
  let ?s1 = "snd (checkStreamRateLimit now ?n s)"
  note eq = send_accepts [OF assms, of cfg tok]
  have fr: "streams ?s1 = streams s" "rooms ?s1 = rooms s"
    using checkStreamRateLimit_frame [of now ?n s "fst (checkStreamRateLimit now ?n s)" ?s1]
    by simp_all
  then have g1: "getStream ?s1 ?n = Some stream"
    using g by (simp add: getStream_def)
  show "fst (send cfg now tok req s) = Inr Success"
    unfolding eq by (rule send_append_result)
  show "fst (snd (send cfg now tok req s)) =
       [ToRoom (req_agentname req)
          (StreamLine \<lparr>line_time = formatTime cfg now, line_text = escapeHtml msg,
             line_type = toString (case req_type req of JUndefined \<Rightarrow> JString (str ''log'') | v \<Rightarrow> v)\<rparr>)
          (rooms s (req_agentname req))]"
    unfolding eq send_append_emission fr by simp
  have "length (lines stream) < 500 \<or> lines stream \<noteq> []" by auto
  then show "getStream (snd (snd (send cfg now tok req s))) (req_agentname req) =
       Some (stream\<lparr>active := True,
                startedAt := (if active stream then startedAt stream else now),
                lines := (if length (lines stream) < 500
                    then lines stream @ [\<lparr>line_time = formatTime cfg now, line_text = escapeHtml msg,
                       line_type = toString (case req_type req of JUndefined \<Rightarrow> JString (str ''log'') | v \<Rightarrow> v)\<rparr>]
                    else tl (lines stream) @ [\<lparr>line_time = formatTime cfg now, line_text = escapeHtml msg,
                       line_type = toString (case req_type req of JUndefined \<Rightarrow> JString (str ''log'') | v \<Rightarrow> v)\<rparr>]),
                totalMessages := totalMessages stream + 1,
                lastActivity := now\<rparr>)"
    unfolding eq getStream_send_append [OF g1] pushed_lines by auto
qed

lemma escapeHtml_Nil: "escapeHtml [] = []"
  by (simp add: escapeHtml_def replaceAll_def)

lemma chatSend_accepts:
  assumes c: "conns s sid = Some c" and t: "truthy (currentStream c)"
    and g: "getStreamVal s (currentStream c) = Some stream" and a: "active stream"
    and r: "6000 \<le> now - lastChatTime c"
    and ne: "escapeHtml (trim (take 200 t)) \<noteq> []"
  shows "chatSend cfg now sid (JString t) s =
     (Returned,
      [ToRoom (toString (currentStream c))
         (ChatMessage \<lparr>user = hashSocketId cfg sid, chat_text = escapeHtml (trim (take 200 t)),
                       chat_time = now\<rparr>)
         (rooms s (toString (currentStream c)))],
      s\<lparr>conns := (conns s)(sid \<mapsto> c\<lparr>lastChatTime := now\<rparr>),
        chatMessages := (chatMessages s)(toString (currentStream c) \<mapsto>
          (case chatMessages s (toString (currentStream c)) of
             None \<Rightarrow> [\<lparr>user = hashSocketId cfg sid, chat_text = escapeHtml (trim (take 200 t)),
                       chat_time = now\<rparr>]
           | Some ms \<Rightarrow>
               if length ms < 200
               then ms @ [\<lparr>user = hashSocketId cfg sid, chat_text = escapeHtml (trim (take 200 t)),
                       chat_time = now\<rparr>]
               else tl ms @ [\<lparr>user = hashSocketId cfg sid, chat_text = escapeHtml (trim (take 200 t)),
                       chat_time = now\<rparr>]))\<rparr>)"
proof -
  from ne have "t \<noteq> []"
    by (auto simp: trim_def escapeHtml_Nil)
  then have tt: "truthy (JString t)" by simp
  have "199 < length ms \<Longrightarrow> tl (ms @ [m]) = tl ms @ [m]" for ms :: "chatMessage list" and m
    by (cases ms) auto
  then show ?thesis
    unfolding chatSend_def using c t g a r ne tt
    by (auto simp: Let_def split: option.splits)
qed

section \<open>Rooms and recipients\<close>

text \<open>A socket stays in a room until it joins again or disconnects.\<close>

lemma rooms_send: "rooms (snd (snd (send cfg now tok req s))) = rooms s"
proof (cases rule: send_cases [of cfg now tok req s])
  case (rejected e)
  then show ?thesis by simp
next
  case (created msg ty s1)
  then show ?thesis
    using checkIPStreamCreationLimit_frame [OF created(8)] by (simp add: send_create_frame)
next
  case (appended msg ty stream s1)
  then show ?thesis
    using checkStreamRateLimit_frame [OF appended(9)] by (simp add: send_append_frame)
qed

lemma rooms_timeoutSweep: "rooms (snd (timeoutSweep now s)) = rooms s"
  by (auto simp: timeoutSweep_def split: prod.splits dest: sweepEntries_fields)

lemma rooms_admin:
  "rooms (snd (snd (rotate now tok n old s))) = rooms s"
  "rooms (snd (snd (report now s))) = rooms s"
  "rooms (snd (snd (adminEnd now p n s))) = rooms s"
  "rooms (snd (snd (ban now p n s))) = rooms s"
  "rooms (snd (snd (unban now p n s))) = rooms s"
  "rooms (snd (connection now x ip s)) = rooms s"
  "rooms (snd (snd (chatSend cfg now x t s))) = rooms s"
  "rooms (dailyReset cfg now s) = rooms s"
  by (simp_all add: rotate_def report_def adminEnd_def ban_def unban_def connection_def
      checkIPConnectionLimit_def chatSend_def dailyReset_def Let_def
      split: option.splits jsval.splits)

lemma rooms_join:
  assumes "sid \<in> rooms s n" "x \<noteq> sid"
  shows "sid \<in> rooms (snd (join cfg x a s)) n"
proof (cases "conns s x")
  case None
  with assms show ?thesis by (simp add: join_def)
next
  case (Some c)
  show ?thesis
  proof (cases "truthy a \<and> isValidAgentName (toString a)")
    case False
    with Some assms show ?thesis by (auto simp: join_def)
  next
    case True
    then have t: "truthy a" "isValidAgentName (toString a)" by simp_all
    from assms show ?thesis
      unfolding join_valid [OF Some t]
      by (auto simp: Let_def leavePrevious_rooms split: option.splits)
  qed
qed

lemma rooms_disconnect:
  assumes "sid \<in> rooms s n" "x \<noteq> sid"
  shows "sid \<in> rooms (snd (disconnect x s)) n"
  using assms by (auto simp: disconnect_def Let_def split: option.splits prod.splits if_splits)

lemma rooms_step:
  assumes "sid \<in> rooms s n" "\<forall>v. a \<noteq> AJoin sid v" "a \<noteq> ADisconnect sid"
  shows "sid \<in> rooms (step cfg a s) n"
  using assms
  by (cases a) (auto simp: rooms_send rooms_admin rooms_timeoutSweep rooms_join rooms_disconnect)

lemma rooms_run:
  assumes "sid \<in> rooms s n" "\<forall>b\<in>set as. (\<forall>v. b \<noteq> AJoin sid v) \<and> b \<noteq> ADisconnect sid"
  shows "sid \<in> rooms (run cfg as s) n"
  using assms
proof (induction as arbitrary: s)
  case Nil
  then show ?case by simp
next
  case (Cons a as)
  from Cons.prems have "sid \<in> rooms (step cfg a s) n"
    by (intro rooms_step) auto
  with Cons show ?case by simp
qed

text \<open>Who receives what a handler run emits to a room.\<close>

lemma members_send:
  assumes "ToRoom n ev members \<in> set (fst (snd (send cfg now tok req s)))"
  shows "members = rooms s n"
proof (cases rule: send_cases [of cfg now tok req s])
  case (rejected e)
  with assms show ?thesis by simp
next
  case (created msg ty s1)
  with assms show ?thesis
    using checkIPStreamCreationLimit_frame [OF created(8)] by (simp add: send_create_def Let_def)
next
  case (appended msg ty stream s1)
  with assms show ?thesis
    using checkStreamRateLimit_frame [OF appended(9)] by (simp add: send_append_emission)
qed

lemma members_none:
  "ToRoom n ev members \<notin> set (fst (snd (rotate now tok m old s)))"
  "ToRoom n ev members \<notin> set (fst (snd (report now s)))"
  "ToRoom n ev members \<notin> set (fst (snd (unban now p m s)))"
  "ToRoom n ev members \<notin> set (fst (connection now x ip s))"
  by (auto simp: rotate_def report_def unban_def connection_def
      checkIPConnectionLimit_def Let_def split: option.splits)

lemma members_admin:
  "ToRoom n ev members \<in> set (fst (snd (adminEnd now p m s))) \<Longrightarrow> members = rooms s n"
  "ToRoom n ev members \<in> set (fst (snd (ban now p m s))) \<Longrightarrow> members = rooms s n"
  "ToRoom n ev members \<in> set (fst (snd (chatSend cfg now x t s))) \<Longrightarrow> members = rooms s n"
  "ToRoom n ev members \<in> set (fst (timeoutSweep now s)) \<Longrightarrow> members = rooms s n"
  by (auto simp: adminEnd_def ban_def chatSend_def timeoutSweep_emissions Let_def
      split: option.splits jsval.splits if_splits)

lemma members_join:
  assumes "ToRoom n ev members \<in> set (fst (join cfg x a s))"
  shows "rooms s n - {x} \<subseteq> members"
proof (cases "conns s x")
  case None
  with assms show ?thesis by (simp add: join_def)
next
  case (Some c)
  show ?thesis
  proof (cases "truthy a \<and> isValidAgentName (toString a)")
    case False
    then have "fst (join cfg x a s) = [ToSocket x (ErrorEvent InvalidStreamName)]"
      using Some by (auto simp: join_def)
    with assms show ?thesis by simp
  next
    case True
    then have t: "truthy a" "isValidAgentName (toString a)" by simp_all
    from assms show ?thesis
      unfolding join_valid [OF Some t]
      by (auto simp: Let_def leavePrevious_rooms leavePrevious_emissions
          split: option.splits if_splits)
  qed
qed

lemma members_disconnect:
  assumes "ToRoom n ev members \<in> set (fst (disconnect x s))"
  shows "members = rooms s n - {x}"
  using assms by (auto simp: disconnect_def Let_def split: option.splits prod.splits if_splits)

lemma members_step:
  assumes "ToRoom n ev members \<in> set (emissions cfg a s)" "sid \<in> rooms s n"
    "\<forall>v. a \<noteq> AJoin sid v" "a \<noteq> ADisconnect sid"
  shows "sid \<in> members"
proof (cases a)
  case (AJoin x v)
  with assms members_join [of n ev members cfg x v s] show ?thesis by auto
next
  case (ADisconnect x)
  with assms members_disconnect [of n ev members x s] show ?thesis by auto
qed (use assms in \<open>auto simp: members_none dest: members_send members_admin\<close>)

lemma members_sigterm:
  "ToRoom n ev members \<in> set (sigterm s) \<Longrightarrow> members = rooms s n"
  by (auto simp: sigterm_def)
section \<open>The rate limiter\<close>

lemma rateLimitCalls_append:
  "rateLimitCalls (xs @ ys) k s =
     (let (r1, s1) = rateLimitCalls xs k s; (r2, s2) = rateLimitCalls ys k s1 in (r1 @ r2, s2))"
  by (induction xs arbitrary: s) (simp_all add: Let_def split: prod.splits)

lemma rateLimitCalls_in_window:
  "rateLimits s k = Some w \<Longrightarrow> count w + length ts \<le> 100 \<Longrightarrow> \<forall>t\<in>set ts. t \<le> resetTime w \<Longrightarrow>
   rateLimitCalls ts k s =
     (replicate (length ts) True,
      if ts = [] then s else s\<lparr>rateLimits := (rateLimits s)(k \<mapsto> w\<lparr>count := count w + length ts\<rparr>)\<rparr>)"
proof (induction ts arbitrary: s w)
  case Nil
  then show ?case by simp
next
  case (Cons t ts)
  let ?w1 = "w\<lparr>count := count w + 1\<rparr>"
  let ?s1 = "s\<lparr>rateLimits := (rateLimits s)(k \<mapsto> ?w1)\<rparr>"
  from Cons.prems have c: "checkStreamRateLimit t k s = (True, ?s1)"
    by (simp add: checkStreamRateLimit_def)
  have "rateLimitCalls ts k ?s1 =
     (replicate (length ts) True,
      if ts = [] then ?s1 else ?s1\<lparr>rateLimits := (rateLimits ?s1)(k \<mapsto> ?w1\<lparr>count := count ?w1 + length ts\<rparr>)\<rparr>)"
    using Cons.prems by (intro Cons.IH) simp_all
  with c show ?case by (simp add: Let_def)
qed


lemma rateLimitCalls_101:
  assumes fresh: "rateLimits s k = None \<or> (\<exists>w. rateLimits s k = Some w \<and> now > resetTime w)"
    and len: "length ts = 99"
    and inw: "\<forall>t\<in>set ts. t \<le> now + 60000"
    and t101: "t101 \<le> now + 60000"
    and t': "t' > now + 60000"
  shows "\<exists>s'. rateLimitCalls (now # ts @ [t101, t']) k s = (replicate 100 True @ [False, True], s')
           \<and> rateLimits s' k = Some \<lparr>count = 1, resetTime = t' + 60000\<rparr>"
proof -
  let ?w0 = "\<lparr>count = 1, resetTime = now + 60000\<rparr>"
  let ?s1 = "s\<lparr>rateLimits := (rateLimits s)(k \<mapsto> ?w0)\<rparr>"
  let ?w2 = "?w0\<lparr>count := count ?w0 + length ts\<rparr>"
  let ?s2 = "?s1\<lparr>rateLimits := (rateLimits ?s1)(k \<mapsto> ?w2)\<rparr>"
  let ?s3 = "?s2\<lparr>rateLimits := (rateLimits ?s2)(k \<mapsto> \<lparr>count = 1, resetTime = t' + 60000\<rparr>)\<rparr>"
  have first: "checkStreamRateLimit now k s = (True, ?s1)"
    using fresh by (auto simp: checkStreamRateLimit_def)
  have "ts \<noteq> []" using len by auto
  then have mid: "rateLimitCalls ts k ?s1 = (replicate 99 True, ?s2)"
    using rateLimitCalls_in_window [of ?s1 k ?w0 ts] len inw by simp
  have denied: "checkStreamRateLimit t101 k ?s2 = (False, ?s2)"
    using t101 len by (simp add: checkStreamRateLimit_def)
  have after: "checkStreamRateLimit t' k ?s2 = (True, ?s3)"
    using t' by (simp add: checkStreamRateLimit_def)
  have "(100::nat) = Suc 99" by simp
  then have r: "replicate 100 True = True # replicate 99 True"
    by (simp only: replicate_Suc)
  have "rateLimitCalls (now # ts @ [t101, t']) k s = (replicate 100 True @ [False, True], ?s3)"
    using first mid denied after by (simp add: rateLimitCalls_append Let_def r)
  then show ?thesis by simp
qed

text \<open>
  Claim C3. The fixed-window limiter, for every key: when the key has no window or the
  clock is past \<open>resetTime\<close>, the call installs the window \<open>{count = 1, resetTime = now + windowMs}\<close>
  and allows; otherwise, when \<open>count\<close> has reached the maximum it denies and leaves the
  state as it is; otherwise it increments \<open>count\<close> and allows. This holds for the per-stream
  limiter (60 s, 100) and for the per-address creation limiter (3600 s, 10). With 60 s and
  100: after a call that opens a window, 99 further calls inside it are allowed, the 101st
  call inside it is denied, and the first call after \<open>resetTime\<close> is allowed and leaves
  \<open>count = 1\<close>.
\<close>

theorem rate_limiter_fixed_window:
  "(rateLimits s k = None \<or> (\<exists>w. rateLimits s k = Some w \<and> now > resetTime w) \<longrightarrow>
      checkStreamRateLimit now k s =
        (True, s\<lparr>rateLimits := (rateLimits s)(k \<mapsto> \<lparr>count = 1, resetTime = now + 60000\<rparr>)\<rparr>))
   \<and> (\<forall>w. rateLimits s k = Some w \<and> now \<le> resetTime w \<and> count w \<ge> 100 \<longrightarrow>
      checkStreamRateLimit now k s = (False, s))
   \<and> (\<forall>w. rateLimits s k = Some w \<and> now \<le> resetTime w \<and> count w < 100 \<longrightarrow>
      checkStreamRateLimit now k s =
        (True, s\<lparr>rateLimits := (rateLimits s)(k \<mapsto> w\<lparr>count := count w + 1\<rparr>)\<rparr>))
   \<and> (ipStreamCreation s k = None \<or> (\<exists>w. ipStreamCreation s k = Some w \<and> now > resetTime w) \<longrightarrow>
      checkIPStreamCreationLimit now k s =
        (True, s\<lparr>ipStreamCreation := (ipStreamCreation s)(k \<mapsto> \<lparr>count = 1, resetTime = now + 3600000\<rparr>)\<rparr>))
   \<and> (\<forall>w. ipStreamCreation s k = Some w \<and> now \<le> resetTime w \<and> count w \<ge> 10 \<longrightarrow>
      checkIPStreamCreationLimit now k s = (False, s))
   \<and> (\<forall>w. ipStreamCreation s k = Some w \<and> now \<le> resetTime w \<and> count w < 10 \<longrightarrow>
      checkIPStreamCreationLimit now k s =
        (True, s\<lparr>ipStreamCreation := (ipStreamCreation s)(k \<mapsto> w\<lparr>count := count w + 1\<rparr>)\<rparr>))
   \<and> (\<forall>ts t101 t'.
        (rateLimits s k = None \<or> (\<exists>w. rateLimits s k = Some w \<and> now > resetTime w))
        \<and> length ts = 99 \<and> (\<forall>t\<in>set ts. t \<le> now + 60000) \<and> t101 \<le> now + 60000 \<and> t' > now + 60000 \<longrightarrow>
        (\<exists>s'. rateLimitCalls (now # ts @ [t101, t']) k s = (replicate 100 True @ [False, True], s')
           \<and> rateLimits s' k = Some \<lparr>count = 1, resetTime = t' + 60000\<rparr>))"
proof (intro conjI allI impI)
  show "\<exists>s'. rateLimitCalls (now # ts @ [t101, t']) k s = (replicate 100 True @ [False, True], s')
           \<and> rateLimits s' k = Some \<lparr>count = 1, resetTime = t' + 60000\<rparr>"
    if "(rateLimits s k = None \<or> (\<exists>w. rateLimits s k = Some w \<and> now > resetTime w))
        \<and> length ts = 99 \<and> (\<forall>t\<in>set ts. t \<le> now + 60000) \<and> t101 \<le> now + 60000 \<and> t' > now + 60000"
    for ts t101 t'
    using that rateLimitCalls_101 [of s k now ts t101 t'] by blast
qed (auto simp: checkStreamRateLimit_def checkIPStreamCreationLimit_def)


theorem rate_limiter_fixed_window_witness:
  "checkStreamRateLimit 0 (str ''Nova1'') (startup 0 0) =
     (True, (startup 0 0)\<lparr>rateLimits := (rateLimits (startup 0 0))(str ''Nova1'' \<mapsto> \<lparr>count = 1, resetTime = 60000\<rparr>)\<rparr>)
   \<and> (\<exists>s'. rateLimitCalls (0 # replicate 99 0 @ [60000, 60001]) (str ''Nova1'') (startup 0 0)
              = (replicate 100 True @ [False, True], s')
          \<and> rateLimits s' (str ''Nova1'') = Some \<lparr>count = 1, resetTime = 120001\<rparr>)"
proof -
  note t = rate_limiter_fixed_window [of "startup 0 0" "str ''Nova1''" 0]
  have fresh: "rateLimits (startup 0 0) (str ''Nova1'') = None"
    by (simp add: startup_def logActivity_def)
  have a: "checkStreamRateLimit 0 (str ''Nova1'') (startup 0 0) =
     (True, (startup 0 0)\<lparr>rateLimits := (rateLimits (startup 0 0))(str ''Nova1'' \<mapsto> \<lparr>count = 1, resetTime = 60000\<rparr>)\<rparr>)"
    using t fresh by simp
  have "(rateLimits (startup 0 0) (str ''Nova1'') = None \<or>
          (\<exists>w. rateLimits (startup 0 0) (str ''Nova1'') = Some w \<and> 0 > resetTime w))
        \<and> length (replicate 99 (0::int)) = 99 \<and> (\<forall>t\<in>set (replicate 99 (0::int)). t \<le> 0 + 60000)
        \<and> (60000::int) \<le> 0 + 60000 \<and> (60001::int) > 0 + 60000"
    using fresh by simp
  with t have b: "\<exists>s'. rateLimitCalls (0 # replicate 99 0 @ [60000, 60001]) (str ''Nova1'') (startup 0 0)
              = (replicate 100 True @ [False, True], s')
          \<and> rateLimits s' (str ''Nova1'') = Some \<lparr>count = 1, resetTime = 60001 + 60000\<rparr>"
    by blast
  from a b show ?thesis by simp
qed

section \<open>Bans\<close>

lemma send_rejected_when_banned:
  "req_agentname req \<in> bannedAgents s \<Longrightarrow>
   \<exists>e. send cfg now tok req s = (Inl e, [], s)
      \<and> (if isValidAgentName (req_agentname req) then e = AgentBanned else e = InvalidAgentName)"
  by (cases "isValidAgentName (req_agentname req)") (simp_all add: send_def)

lemma ban_result:
  "ban now True n s =
     (Inr Success,
      (case getStream s n of Some stream \<Rightarrow> if active stream then [ToRoom n StreamOffline (rooms s n)] else []
       | None \<Rightarrow> []),
      logActivity now (AdminBanned n)
        (case getStream s n of
           Some stream \<Rightarrow> if active stream
             then updateStream n (\<lambda>st. st\<lparr>active := False\<rparr>) (s\<lparr>bannedAgents := insert n (bannedAgents s)\<rparr>)
             else s\<lparr>bannedAgents := insert n (bannedAgents s)\<rparr>
         | None \<Rightarrow> s\<lparr>bannedAgents := insert n (bannedAgents s)\<rparr>))"
  by (simp add: ban_def getStream_def Let_def split: option.splits)

lemma ban_offline:
  "getStream (snd (snd (ban now True n s))) n = Some stream' \<Longrightarrow> \<not> active stream'"
  by (auto simp: ban_result getStream_updateStream split: option.splits if_splits)

text \<open>
  Claim C5. Banning a name puts it in the ban set and leaves its stream offline; when the
  stream was active, \<open>stream:offline\<close> is sent to its room. While the name is in the ban set,
  every send for it is rejected and the state stays as it is, whatever token is supplied.
  Every handler other than an authorised unban of that name keeps it in the ban set. Unban
  takes the name out and leaves the streams, hence the \<open>active\<close> flag, as they are.
\<close>

theorem ban_blocks_sends_until_unban:
  "n \<in> bannedAgents (snd (snd (ban now True n s)))
   \<and> (\<forall>stream'. getStream (snd (snd (ban now True n s))) n = Some stream' \<longrightarrow> \<not> active stream')
   \<and> (\<forall>stream. getStream s n = Some stream \<and> active stream \<longrightarrow>
        fst (snd (ban now True n s)) = [ToRoom n StreamOffline (rooms s n)])
   \<and> (n \<in> bannedAgents s \<longrightarrow>
        (\<forall>cfg t tok req. req_agentname req = n \<longrightarrow>
           (\<exists>e. send cfg t tok req s = (Inl e, [], s)
              \<and> (if isValidAgentName n then e = AgentBanned else e = InvalidAgentName))))
   \<and> (\<forall>cfg a. n \<in> bannedAgents s \<and> (\<forall>t. a \<noteq> AUnban t True n) \<longrightarrow> n \<in> bannedAgents (step cfg a s))
   \<and> n \<notin> bannedAgents (snd (snd (unban now True n s)))
   \<and> streams (snd (snd (unban now True n s))) = streams s
   \<and> fst (snd (unban now True n s)) = []"
proof (intro conjI allI impI)
  show "n \<in> bannedAgents (snd (snd (ban now True n s)))"
    by (simp add: ban_result split: option.splits)
  show "\<not> active stream'" if "getStream (snd (snd (ban now True n s))) n = Some stream'" for stream'
    using that by (rule ban_offline)
  show "fst (snd (ban now True n s)) = [ToRoom n StreamOffline (rooms s n)]"
    if "getStream s n = Some stream \<and> active stream" for stream
    using that by (simp add: ban_result)
  show "\<exists>e. send cfg t tok req s = (Inl e, [], s)
          \<and> (if isValidAgentName n then e = AgentBanned else e = InvalidAgentName)"
    if "n \<in> bannedAgents s" "req_agentname req = n" for cfg t tok req
    using that send_rejected_when_banned [of req s cfg t tok] by simp
  show "n \<in> bannedAgents (step cfg a s)"
    if "n \<in> bannedAgents s \<and> (\<forall>t. a \<noteq> AUnban t True n)" for cfg a
    using that by (simp add: bannedAgents_step)
qed (simp_all add: unban_def)

theorem ban_blocks_sends_until_unban_witness:
  "str ''Nova1'' \<in> bannedAgents exampleBanned
   \<and> send exampleConfig 3000 (str ''fresh'')
       (exampleRequest ''Nova1'' (JString (str ''s3cret'')) ''again'') exampleBanned
     = (Inl AgentBanned, [], exampleBanned)
   \<and> streams (snd (snd (unban 4000 True (str ''Nova1'') exampleBanned))) = streams exampleBanned
   \<and> map_option active (getStream exampleBanned (str ''Nova1'')) = Some False"
proof -
  note t = ban_blocks_sends_until_unban [of "str ''Nova1''" 4000 exampleBanned]
  have b: "str ''Nova1'' \<in> bannedAgents exampleBanned"
    by (simp add: exampleBanned_eq)
  have v: "isValidAgentName (str ''Nova1'')"
    by (simp add: isValidAgentName_def isNameChar_def str_def)
  have r: "req_agentname (exampleRequest ''Nova1'' (JString (str ''s3cret'')) ''again'') = str ''Nova1''"
    by (simp add: exampleRequest_def)
  from t b have "\<forall>cfg t tok req. req_agentname req = str ''Nova1'' \<longrightarrow>
           (\<exists>e. send cfg t tok req exampleBanned = (Inl e, [], exampleBanned)
              \<and> (if isValidAgentName (str ''Nova1'') then e = AgentBanned else e = InvalidAgentName))"
    by blast
  with r v have s: "send exampleConfig 3000 (str ''fresh'')
       (exampleRequest ''Nova1'' (JString (str ''s3cret'')) ''again'') exampleBanned
     = (Inl AgentBanned, [], exampleBanned)"
    by (metis (full_types))
  from t have u: "streams (snd (snd (unban 4000 True (str ''Nova1'') exampleBanned))) = streams exampleBanned"
    by blast
  have a: "map_option active (getStream exampleBanned (str ''Nova1'')) = Some False"
    by (simp add: exampleBanned_eq getStream_def)
  from b s u a show ?thesis by simp
qed

section \<open>Sends with a wrong token\<close>

lemma validMessage_checks: "validMessage req \<longleftrightarrow> textGiven req \<and> textFits req \<and> typeKnown req"
  by (auto simp: validMessage_def textGiven_def textFits_def typeKnown_def split: jsval.splits)

lemma send_invalid_name:
  "\<not> isValidAgentName (req_agentname req) \<Longrightarrow> send cfg now newToken req s = (Inl InvalidAgentName, [], s)"
  by (simp add: send_def)

lemma send_banned:
  "isValidAgentName (req_agentname req) \<Longrightarrow> req_agentname req \<in> bannedAgents s \<Longrightarrow>
   send cfg now newToken req s = (Inl AgentBanned, [], s)"
  by (simp add: send_def)

lemma send_text_required:
  "isValidAgentName (req_agentname req) \<Longrightarrow> req_agentname req \<notin> bannedAgents s \<Longrightarrow>
   \<not> textGiven req \<Longrightarrow> send cfg now newToken req s = (Inl TextRequired, [], s)"
  by (simp add: send_def textGiven_def Let_def split: jsval.splits)

lemma send_too_long:
  "isValidAgentName (req_agentname req) \<Longrightarrow> req_agentname req \<notin> bannedAgents s \<Longrightarrow>
   textGiven req \<Longrightarrow> \<not> textFits req \<Longrightarrow> send cfg now newToken req s = (Inl MessageTooLong, [], s)"
  by (auto simp: send_def textGiven_def textFits_def Let_def not_le split: jsval.splits)

lemma send_invalid_type:
  "isValidAgentName (req_agentname req) \<Longrightarrow> req_agentname req \<notin> bannedAgents s \<Longrightarrow>
   textGiven req \<Longrightarrow> textFits req \<Longrightarrow> \<not> typeKnown req \<Longrightarrow>
   send cfg now newToken req s = (Inl InvalidType, [], s)"
  by (auto simp: send_def textGiven_def textFits_def typeKnown_def Let_def not_le split: jsval.splits)

lemma send_invalid_token:
  assumes "getStream s (req_agentname req) = Some stream"
    and "req_token req \<noteq> JString (token stream)"
    and "isValidAgentName (req_agentname req)" "req_agentname req \<notin> bannedAgents s"
    and "validMessage req"
  shows "send cfg now newToken req s = (Inl InvalidToken, [], s)"
  using send_valid [OF assms(3,4,5), of cfg now newToken] assms(1,2) by auto




section \<open>The inactivity sweep\<close>

lemma in_streams_getStream:
  "distinct (map fst (streams s)) \<Longrightarrow> (n, stream) \<in> set (streams s) \<Longrightarrow> getStream s n = Some stream"
  by (simp add: getStream_def)

text \<open>
  Claim C6. At a sweep, every stream that is active and whose \<open>lastActivity\<close> lies more than
  five minutes before the clock reading is set offline, and exactly one \<open>stream:offline\<close> is
  sent to its room; every other stream, the offline ones included, is left as it is and
  nothing is sent for it; nothing else is sent. A second sweep at the same clock reading
  sends nothing and changes nothing.
\<close>

theorem timeout_sweep_once:
  assumes "reachable cfg s"
  shows "(\<forall>n stream. getStream s n = Some stream \<longrightarrow>
            getStream (snd (timeoutSweep now s)) n =
              Some (if active stream \<and> now - lastActivity stream > 5 * 60 * 1000
                    then stream\<lparr>active := False\<rparr> else stream)
            \<and> length (filter (\<lambda>e. \<exists>members. e = ToRoom n StreamOffline members) (fst (timeoutSweep now s)))
              = (if active stream \<and> now - lastActivity stream > 5 * 60 * 1000 then 1 else 0))
       \<and> (\<forall>e\<in>set (fst (timeoutSweep now s)).
             \<exists>n stream. e = ToRoom n StreamOffline (rooms s n) \<and> getStream s n = Some stream
               \<and> active stream \<and> now - lastActivity stream > 5 * 60 * 1000)
       \<and> timeoutSweep now (snd (timeoutSweep now s)) = ([], snd (timeoutSweep now s))"
proof (intro conjI allI impI ballI)
  have d: "distinct (map fst (streams s))"
    using assms by (rule reachable_distinct)
  fix n stream
  assume g: "getStream s n = Some stream"
  show "getStream (snd (timeoutSweep now s)) n =
          Some (if active stream \<and> now - lastActivity stream > 5 * 60 * 1000
                then stream\<lparr>active := False\<rparr> else stream)"
    using g by (simp add: getStream_timeoutSweep stale_def INACTIVE_TIMEOUT_def)
  show "length (filter (\<lambda>e. \<exists>members. e = ToRoom n StreamOffline members) (fst (timeoutSweep now s)))
          = (if active stream \<and> now - lastActivity stream > 5 * 60 * 1000 then 1 else 0)"
    using g count_offline [OF d, of n "rooms s" now]
    by (simp add: timeoutSweep_emissions getStream_def stale_def INACTIVE_TIMEOUT_def)
next
  have d: "distinct (map fst (streams s))"
    using assms by (rule reachable_distinct)
  fix e
  assume "e \<in> set (fst (timeoutSweep now s))"
  then obtain n stream where "(n, stream) \<in> set (streams s)" "stale now stream"
    "e = ToRoom n StreamOffline (rooms s n)"
    by (auto simp: timeoutSweep_emissions)
  with d show "\<exists>n stream. e = ToRoom n StreamOffline (rooms s n) \<and> getStream s n = Some stream
               \<and> active stream \<and> now - lastActivity stream > 5 * 60 * 1000"
    by (auto simp: stale_def INACTIVE_TIMEOUT_def dest: in_streams_getStream)
next
  show "timeoutSweep now (snd (timeoutSweep now s)) = ([], snd (timeoutSweep now s))"
    by (rule timeoutSweep_idempotent)
qed

theorem timeout_sweep_once_witness:
  "fst (timeoutSweep 301001 exampleLive) = [ToRoom (str ''Nova1'') StreamOffline {}]
   \<and> map_option active (getStream (snd (timeoutSweep 301001 exampleLive)) (str ''Nova1'')) = Some False
   \<and> length (filter (\<lambda>e. \<exists>members. e = ToRoom (str ''Nova1'') StreamOffline members)
        (fst (timeoutSweep 301001 exampleLive))) = 1
   \<and> timeoutSweep 301001 (snd (timeoutSweep 301001 exampleLive))
       = ([], snd (timeoutSweep 301001 exampleLive))"
proof -
  note t = timeout_sweep_once [OF reachable_exampleLive, of 301001]
  let ?st = "\<lparr>token = str ''s3cret'', active = True,
          lines = [\<lparr>line_time = str ''00:00'', line_text = str ''hello'', line_type = str ''log''\<rparr>],
          viewers = [], startedAt = 1000, lastActivity = 1000, peakViewers = 0, totalMessages = 1\<rparr>"
  have g: "getStream exampleLive (str ''Nova1'') = Some ?st"
    by (simp add: exampleLive_eq getStream_def)
  have a: "active ?st \<and> 301001 - lastActivity ?st > 5 * 60 * 1000"
    by simp
  from t g have "getStream (snd (timeoutSweep 301001 exampleLive)) (str ''Nova1'') =
              Some (if active ?st \<and> 301001 - lastActivity ?st > 5 * 60 * 1000
                    then ?st\<lparr>active := False\<rparr> else ?st)
            \<and> length (filter (\<lambda>e. \<exists>members. e = ToRoom (str ''Nova1'') StreamOffline members)
                (fst (timeoutSweep 301001 exampleLive)))
              = (if active ?st \<and> 301001 - lastActivity ?st > 5 * 60 * 1000 then 1 else 0)"
    by blast
  with a have b: "map_option active (getStream (snd (timeoutSweep 301001 exampleLive)) (str ''Nova1'')) = Some False
     \<and> length (filter (\<lambda>e. \<exists>members. e = ToRoom (str ''Nova1'') StreamOffline members)
                (fst (timeoutSweep 301001 exampleLive))) = 1"
    by simp
  have c: "fst (timeoutSweep 301001 exampleLive) = [ToRoom (str ''Nova1'') StreamOffline {}]"
    by (simp add: timeoutSweep_emissions exampleLive_eq stale_def INACTIVE_TIMEOUT_def)
  from t have i: "timeoutSweep 301001 (snd (timeoutSweep 301001 exampleLive))
       = ([], snd (timeoutSweep 301001 exampleLive))"
    by blast
  from b c i show ?thesis by simp
qed

section \<open>Bounded histories\<close>

lemma exampleAgain_facts:
  "req_agentname (exampleRequest ''Nova1'' (JString (str ''s3cret'')) ''again'') = str ''Nova1''"
  "isValidAgentName (req_agentname (exampleRequest ''Nova1'' (JString (str ''s3cret'')) ''again''))"
  "req_text (exampleRequest ''Nova1'' (JString (str ''s3cret'')) ''again'') = JString (str ''again'')"
  "str ''again'' \<noteq> []" "length (str ''again'') \<le> 500"
  "typeKnown (exampleRequest ''Nova1'' (JString (str ''s3cret'')) ''again'')"
  "req_token (exampleRequest ''Nova1'' (JString (str ''s3cret'')) ''again'') = JString (str ''s3cret'')"
  "escapeHtml (str ''again'') = str ''again''"
  "toString (case req_type (exampleRequest ''Nova1'' (JString (str ''s3cret'')) ''again'') of JUndefined \<Rightarrow> JString (str ''log'') | v \<Rightarrow> v) = str ''log''"
  by (simp_all add: exampleRequest_def isValidAgentName_def isNameChar_def typeKnown_def str_def
      escapeHtml_def replaceAll_def)

lemma rateLimits_send_append:
  "rateLimits (snd (snd (send_append cfg now n msg ty stream s))) = rateLimits s"
  by (simp add: send_append_def Let_def updateStream_fields logActivity_fields)

lemma checkStreamRateLimit_fresh:
  assumes "\<forall>w. rateLimits s n = Some w \<longrightarrow> resetTime w < now"
  shows "fst (checkStreamRateLimit now n s)"
    and "rateLimits (snd (checkStreamRateLimit now n s)) n = Some \<lparr>count = 1, resetTime = now + 60000\<rparr>"
  using assms by (auto simp: checkStreamRateLimit_def split: option.splits)

lemma exampleAfter_inv:
  "\<exists>st. getStream (exampleAfter k) (str ''Nova1'') = Some st \<and> token st = str ''s3cret''
     \<and> length (lines st) = min (Suc k) 500
     \<and> (k < 500 \<longrightarrow> hd (lines st) = \<lparr>line_time = str ''00:00'', line_text = str ''hello'', line_type = str ''log''\<rparr>)
     \<and> str ''Nova1'' \<notin> bannedAgents (exampleAfter k)
     \<and> (\<forall>w. rateLimits (exampleAfter k) (str ''Nova1'') = Some w \<longrightarrow> resetTime w = 61000 + 60001 * int k)"
proof (induction k)
  case 0
  show ?case by (simp add: exampleLive_eq getStream_def)
next
  case (Suc k)
  let ?s = "exampleAfter k"
  let ?now = "1000 + 60001 * int (Suc k)"
  let ?n = "str ''Nova1''"
  from Suc obtain st where st: "getStream ?s ?n = Some st" "token st = str ''s3cret''"
    "length (lines st) = min (Suc k) 500" "k < 500 \<longrightarrow> hd (lines st) = \<lparr>line_time = str ''00:00'', line_text = str ''hello'', line_type = str ''log''\<rparr>"
    "?n \<notin> bannedAgents ?s"
    "\<forall>w. rateLimits ?s ?n = Some w \<longrightarrow> resetTime w = 61000 + 60001 * int k"
    by blast
  have g: "getStream ?s (req_agentname (exampleRequest ''Nova1'' (JString (str ''s3cret'')) ''again'')) = Some st"
    using st(1) by (simp add: exampleAgain_facts)
  have nb: "req_agentname (exampleRequest ''Nova1'' (JString (str ''s3cret'')) ''again'') \<notin> bannedAgents ?s"
    using st(5) by (simp add: exampleAgain_facts)
  have tk: "req_token (exampleRequest ''Nova1'' (JString (str ''s3cret'')) ''again'') = JString (token st)"
    using st(2) by (simp add: exampleAgain_facts)
  have fresh: "\<forall>w. rateLimits ?s ?n = Some w \<longrightarrow> resetTime w < ?now"
    using st(6) by auto
  have rl: "fst (checkStreamRateLimit ?now (req_agentname (exampleRequest ''Nova1'' (JString (str ''s3cret'')) ''again'')) ?s)"
    using checkStreamRateLimit_fresh(1) [OF fresh] by (simp add: exampleAgain_facts)
  note acc = send_accepted_appends [OF g exampleAgain_facts(2) nb exampleAgain_facts(3,4,5,6) tk rl,
      of exampleConfig "str ''unused''"]
  note eq = send_accepts [OF g exampleAgain_facts(2) nb exampleAgain_facts(3,4,5,6) tk rl,
      of exampleConfig "str ''unused''"]
  let ?s' = "exampleAfter (Suc k)"
  have s': "?s' = snd (snd (send exampleConfig ?now (str ''unused'') (exampleRequest ''Nova1'' (JString (str ''s3cret'')) ''again'') ?s))"
    by simp
  let ?l = "\<lparr>line_time = formatTime exampleConfig ?now, line_text = str ''again'', line_type = str ''log''\<rparr>"
  let ?ls = "if length (lines st) < 500 then lines st @ [?l] else tl (lines st) @ [?l]"
  have g': "getStream ?s' ?n = Some (st\<lparr>active := True,
                startedAt := (if active st then startedAt st else ?now),
                lines := ?ls, totalMessages := totalMessages st + 1, lastActivity := ?now\<rparr>)"
    unfolding s' using acc(3) by (simp add: exampleAgain_facts)
  have ne: "lines st \<noteq> []" using st(3) by auto
  have len: "length ?ls = min (Suc (Suc k)) 500"
    using st(3) ne by (auto simp: min_def)
  have hd: "Suc k < 500 \<longrightarrow> hd ?ls = \<lparr>line_time = str ''00:00'', line_text = str ''hello'', line_type = str ''log''\<rparr>"
    using st(3,4) ne by (auto simp: min_def)
  have b: "?n \<notin> bannedAgents ?s'"
    unfolding s' using st(5) bannedAgents_send [of exampleConfig ?now "str ''unused''"
        "exampleRequest ''Nova1'' (JString (str ''s3cret'')) ''again''" ?s]
    by simp
  have "rateLimits ?s' ?n = Some \<lparr>count = 1, resetTime = ?now + 60000\<rparr>"
    unfolding s' eq rateLimits_send_append
    using checkStreamRateLimit_fresh(2) [OF fresh] by (simp add: exampleAgain_facts)
  then have r: "\<forall>w. rateLimits ?s' ?n = Some w \<longrightarrow> resetTime w = 61000 + 60001 * int (Suc k)"
    by auto
  from g' st(2) len hd b r show ?case
    by (intro exI [of _ "st\<lparr>active := True,
                startedAt := (if active st then startedAt st else ?now),
                lines := ?ls, totalMessages := totalMessages st + 1, lastActivity := ?now\<rparr>"]) simp
qed

lemma reachable_exampleAfter: "reachable exampleConfig (exampleAfter k)"
proof (induction k)
  case 0
  show ?case by (simp add: reachable_exampleLive)
next
  case (Suc k)
  then have "reachable exampleConfig
     (step exampleConfig (ASend (1000 + 60001 * int (Suc k)) (str ''unused'') (exampleRequest ''Nova1'' (JString (str ''s3cret'')) ''again'')) (exampleAfter k))"
    by (rule reachable_step) simp
  then show ?case by simp
qed

lemma hi_facts:
  "escapeHtml (trim (take 200 (str ''hi''))) = str ''hi''" "str ''hi'' \<noteq> []"
  by (simp_all add: escapeHtml_def replaceAll_def trim_def isWhiteSpace_def str_def)

lemma exampleChatted_inv:
  "conns (exampleChatted k) (str ''sock1'')
      = Some \<lparr>currentStream = JString (str ''Nova1''), lastChatTime = 6000 * int k\<rparr>
   \<and> (\<exists>st. getStream (exampleChatted k) (str ''Nova1'') = Some st \<and> active st)
   \<and> rooms (exampleChatted k) (str ''Nova1'') = {str ''sock1''}
   \<and> (case chatMessages (exampleChatted k) (str ''Nova1'') of
         None \<Rightarrow> k = 0
       | Some ms \<Rightarrow> 0 < k \<and> length ms = min k 200 \<and> (k \<le> 200 \<longrightarrow> chat_time (hd ms) = 6000))"
proof (induction k)
  case 0
  show ?case by (simp add: exampleWatched_eq getStream_def)
next
  case (Suc k)
  let ?s = "exampleChatted k"
  let ?c = "\<lparr>currentStream = JString (str ''Nova1''), lastChatTime = 6000 * int k\<rparr>"
  let ?now = "6000 * int (Suc k)"
  let ?m = "\<lparr>user = hashSocketId exampleConfig (str ''sock1''), chat_text = str ''hi'', chat_time = ?now\<rparr>"
  from Suc obtain st where c: "conns ?s (str ''sock1'') = Some ?c"
    and st: "getStream ?s (str ''Nova1'') = Some st" "active st"
    and r: "rooms ?s (str ''Nova1'') = {str ''sock1''}"
    and m: "case chatMessages ?s (str ''Nova1'') of
         None \<Rightarrow> k = 0
       | Some ms \<Rightarrow> 0 < k \<and> length ms = min k 200 \<and> (k \<le> 200 \<longrightarrow> chat_time (hd ms) = 6000)"
    by blast
  have t: "truthy (currentStream ?c)" by (simp add: str_def)
  have g: "getStreamVal ?s (currentStream ?c) = Some st" using st(1) by simp
  have w: "6000 \<le> ?now - lastChatTime ?c" by simp
  have ne: "escapeHtml (trim (take 200 (str ''hi''))) \<noteq> []" by (simp add: hi_facts)
  note eq = chatSend_accepts [OF c t g st(2) w ne, of exampleConfig]
  have s': "exampleChatted (Suc k) = snd (snd (chatSend exampleConfig ?now (str ''sock1'') (JString (str ''hi'')) ?s))"
    by simp
  show ?case
  proof (cases "chatMessages ?s (str ''Nova1'')")
    case None
    with m have "k = 0" by simp
    with None c st r show ?thesis
      unfolding s' eq by (simp add: hi_facts)
  next
    case (Some ms)
    with m have ms: "0 < k" "length ms = min k 200" "k \<le> 200 \<longrightarrow> chat_time (hd ms) = 6000" by simp_all
    then have "ms \<noteq> []" by auto
    with Some ms c st r show ?thesis
      unfolding s' eq by (auto simp: hi_facts min_def)
  qed
qed

lemma reachable_exampleChatted: "reachable exampleConfig (exampleChatted k)"
proof (induction k)
  case 0
  show ?case by (simp add: reachable_exampleWatched)
next
  case (Suc k)
  then have "reachable exampleConfig
     (step exampleConfig (AChatSend (6000 * int (Suc k)) (str ''sock1'') (JString (str ''hi'')))
        (exampleChatted k))"
    by (rule reachable_step) simp
  then show ?case by simp
qed

lemma formatTime_example: "formatTime exampleConfig 30001500 = str ''08:20''"
  by (simp add: formatTime_def twoDigits_def getHours_def getMinutes_def exampleConfig_def str_def)

text \<open>
  Claim C4. In every reachable state a stream holds at most 500 lines and a chat log at
  most 200 messages. An accepted send to an existing stream appends its line at the end
  and, when the stream already held 500 lines, drops the first, which is the oldest; an
  accepted chat message does the same to the chat log with 200. The append is never
  refused for the length of the history: a send to an existing stream that passes the
  checks of the handler (name, ban, text, type, token, rate limit) is answered with
  success and stores the escaped text as the last line, and a chat message of a viewer of
  an active stream that passes the checks of its handler (6000 ms since the last one, a
  non-empty text after cutting, trimming and escaping) is sent to the room and stored as
  the last message, in both cases after dropping the first entry of a full history.
\<close>

theorem bounded_histories:
  assumes "reachable cfg s"
  shows "(\<forall>n stream. getStream s n = Some stream \<longrightarrow> length (lines stream) \<le> 500)
       \<and> (\<forall>n ms. chatMessages s n = Some ms \<longrightarrow> length ms \<le> 200)
       \<and> (\<forall>now tok req stream es s'.
             getStream s (req_agentname req) = Some stream \<and> send cfg now tok req s = (Inr Success, es, s') \<longrightarrow>
             (\<exists>l. es = [ToRoom (req_agentname req) (StreamLine l) (rooms s (req_agentname req))]
                \<and> map_option lines (getStream s' (req_agentname req)) =
                    Some (if length (lines stream) < 500 then lines stream @ [l]
                          else tl (lines stream) @ [l])))
       \<and> (\<forall>now sid t room m members s'.
             chatSend cfg now sid t s = (Returned, [ToRoom room (ChatMessage m) members], s') \<longrightarrow>
             chatMessages s' room =
               Some (case chatMessages s room of
                       None \<Rightarrow> [m]
                     | Some ms \<Rightarrow> if length ms < 200 then ms @ [m] else tl ms @ [m]))
       \<and> (\<forall>now tok req stream msg.
             getStream s (req_agentname req) = Some stream
             \<and> isValidAgentName (req_agentname req) \<and> req_agentname req \<notin> bannedAgents s
             \<and> req_text req = JString msg \<and> msg \<noteq> [] \<and> length msg \<le> 500 \<and> typeKnown req
             \<and> req_token req = JString (token stream)
             \<and> fst (checkStreamRateLimit now (req_agentname req) s) \<longrightarrow>
             fst (send cfg now tok req s) = Inr Success
             \<and> map_option lines (getStream (snd (snd (send cfg now tok req s))) (req_agentname req)) =
                 Some ((if length (lines stream) < 500 then lines stream else tl (lines stream)) @
                       [\<lparr>line_time = formatTime cfg now, line_text = escapeHtml msg,
                         line_type = toString (case req_type req of
                                                 JUndefined \<Rightarrow> JString (str ''log'') | v \<Rightarrow> v)\<rparr>]))
       \<and> (\<forall>now sid t c stream.
             conns s sid = Some c \<and> truthy (currentStream c)
             \<and> getStreamVal s (currentStream c) = Some stream \<and> active stream
             \<and> 6000 \<le> now - lastChatTime c \<and> escapeHtml (trim (take 200 t)) \<noteq> [] \<longrightarrow>
             fst (chatSend cfg now sid (JString t) s) = Returned
             \<and> fst (snd (chatSend cfg now sid (JString t) s)) =
                 [ToRoom (toString (currentStream c))
                    (ChatMessage \<lparr>user = hashSocketId cfg sid,
                       chat_text = escapeHtml (trim (take 200 t)), chat_time = now\<rparr>)
                    (rooms s (toString (currentStream c)))]
             \<and> chatMessages (snd (snd (chatSend cfg now sid (JString t) s))) (toString (currentStream c)) =
                 Some ((case chatMessages s (toString (currentStream c)) of
                          None \<Rightarrow> []
                        | Some ms \<Rightarrow> if length ms < 200 then ms else tl ms) @
                       [\<lparr>user = hashSocketId cfg sid,
                         chat_text = escapeHtml (trim (take 200 t)), chat_time = now\<rparr>]))"
proof -
  have a: "\<forall>n stream. getStream s n = Some stream \<longrightarrow> length (lines stream) \<le> 500"
    using assms reachable_lines by blast
  have b: "\<forall>n ms. chatMessages s n = Some ms \<longrightarrow> length ms \<le> 200"
    using assms reachable_chat by blast
  have c: "\<forall>now tok req stream es s'.
             getStream s (req_agentname req) = Some stream \<and> send cfg now tok req s = (Inr Success, es, s') \<longrightarrow>
             (\<exists>l. es = [ToRoom (req_agentname req) (StreamLine l) (rooms s (req_agentname req))]
                \<and> map_option lines (getStream s' (req_agentname req)) =
                    Some (if length (lines stream) < 500 then lines stream @ [l]
                          else tl (lines stream) @ [l]))"
  proof (intro allI impI)
    fix now tok req stream es s'
    assume a: "getStream s (req_agentname req) = Some stream \<and> send cfg now tok req s = (Inr Success, es, s')"
    then obtain l where l: "es = [ToRoom (req_agentname req) (StreamLine l) (rooms s (req_agentname req))]"
      "map_option lines (getStream s' (req_agentname req)) =
         Some (let pushed = lines stream @ [l] in if length pushed > 500 then tl pushed else pushed)"
      using send_success_appends [of s req stream cfg now tok es s'] by blast
    have "(let pushed = lines stream @ [l] in if length pushed > 500 then tl pushed else pushed)
          = (if length (lines stream) < 500 then lines stream @ [l] else tl (lines stream) @ [l])"
      by (cases "lines stream") (auto simp: Let_def)
    with l show "\<exists>l. es = [ToRoom (req_agentname req) (StreamLine l) (rooms s (req_agentname req))]
                  \<and> map_option lines (getStream s' (req_agentname req)) =
                      Some (if length (lines stream) < 500 then lines stream @ [l]
                            else tl (lines stream) @ [l])"
      by auto
  qed
  have d: "\<forall>now sid t room m members s'.
             chatSend cfg now sid t s = (Returned, [ToRoom room (ChatMessage m) members], s') \<longrightarrow>
             chatMessages s' room =
               Some (case chatMessages s room of
                       None \<Rightarrow> [m]
                     | Some ms \<Rightarrow> if length ms < 200 then ms @ [m] else tl ms @ [m])"
  proof (intro allI impI)
    fix now sid t room m members s'
    assume "chatSend cfg now sid t s = (Returned, [ToRoom room (ChatMessage m) members], s')"
    then have "chatMessages s' room =
         Some (let pushed = (case chatMessages s room of None \<Rightarrow> [] | Some ms \<Rightarrow> ms) @ [m]
               in if length pushed > 200 then tl pushed else pushed)"
      by (rule chatSend_accepted)
    moreover have "(let pushed = (case chatMessages s room of None \<Rightarrow> [] | Some ms \<Rightarrow> ms) @ [m]
               in if length pushed > 200 then tl pushed else pushed)
          = (case chatMessages s room of
                         None \<Rightarrow> [m]
                       | Some ms \<Rightarrow> if length ms < 200 then ms @ [m] else tl ms @ [m])"
    proof (cases "chatMessages s room")
      case None
      then show ?thesis by (simp add: Let_def)
    next
      case (Some ms)
      then show ?thesis by (cases ms) (auto simp: Let_def)
    qed
    ultimately show "chatMessages s' room =
                 Some (case chatMessages s room of
                         None \<Rightarrow> [m]
                       | Some ms \<Rightarrow> if length ms < 200 then ms @ [m] else tl ms @ [m])"
      by simp
  qed
  have e: "\<forall>now tok req stream msg.
             getStream s (req_agentname req) = Some stream
             \<and> isValidAgentName (req_agentname req) \<and> req_agentname req \<notin> bannedAgents s
             \<and> req_text req = JString msg \<and> msg \<noteq> [] \<and> length msg \<le> 500 \<and> typeKnown req
             \<and> req_token req = JString (token stream)
             \<and> fst (checkStreamRateLimit now (req_agentname req) s) \<longrightarrow>
             fst (send cfg now tok req s) = Inr Success
             \<and> map_option lines (getStream (snd (snd (send cfg now tok req s))) (req_agentname req)) =
                 Some ((if length (lines stream) < 500 then lines stream else tl (lines stream)) @
                       [\<lparr>line_time = formatTime cfg now, line_text = escapeHtml msg,
                         line_type = toString (case req_type req of
                                                 JUndefined \<Rightarrow> JString (str ''log'') | v \<Rightarrow> v)\<rparr>])"
  proof (intro allI impI)
    fix now tok msg and req :: sendRequest and stream
    assume h: "getStream s (req_agentname req) = Some stream
             \<and> isValidAgentName (req_agentname req) \<and> req_agentname req \<notin> bannedAgents s
             \<and> req_text req = JString msg \<and> msg \<noteq> [] \<and> length msg \<le> 500 \<and> typeKnown req
             \<and> req_token req = JString (token stream)
             \<and> fst (checkStreamRateLimit now (req_agentname req) s)"
    then have "fst (send cfg now tok req s) = Inr Success"
      by (intro send_accepted_appends(1) [of s req stream msg now cfg tok]) simp_all
    moreover from h have "getStream (snd (snd (send cfg now tok req s))) (req_agentname req) =
       Some (stream\<lparr>active := True,
                startedAt := (if active stream then startedAt stream else now),
                lines := (if length (lines stream) < 500
                    then lines stream @ [\<lparr>line_time = formatTime cfg now, line_text = escapeHtml msg,
                       line_type = toString (case req_type req of JUndefined \<Rightarrow> JString (str ''log'') | v \<Rightarrow> v)\<rparr>]
                    else tl (lines stream) @ [\<lparr>line_time = formatTime cfg now, line_text = escapeHtml msg,
                       line_type = toString (case req_type req of JUndefined \<Rightarrow> JString (str ''log'') | v \<Rightarrow> v)\<rparr>]),
                totalMessages := totalMessages stream + 1,
                lastActivity := now\<rparr>)"
      by (intro send_accepted_appends(3) [of s req stream msg now cfg tok]) simp_all
    ultimately show "fst (send cfg now tok req s) = Inr Success
             \<and> map_option lines (getStream (snd (snd (send cfg now tok req s))) (req_agentname req)) =
                 Some ((if length (lines stream) < 500 then lines stream else tl (lines stream)) @
                       [\<lparr>line_time = formatTime cfg now, line_text = escapeHtml msg,
                         line_type = toString (case req_type req of
                                                 JUndefined \<Rightarrow> JString (str ''log'') | v \<Rightarrow> v)\<rparr>])"
      by simp
  qed
  have f: "\<forall>now sid t c stream.
             conns s sid = Some c \<and> truthy (currentStream c)
             \<and> getStreamVal s (currentStream c) = Some stream \<and> active stream
             \<and> 6000 \<le> now - lastChatTime c \<and> escapeHtml (trim (take 200 t)) \<noteq> [] \<longrightarrow>
             fst (chatSend cfg now sid (JString t) s) = Returned
             \<and> fst (snd (chatSend cfg now sid (JString t) s)) =
                 [ToRoom (toString (currentStream c))
                    (ChatMessage \<lparr>user = hashSocketId cfg sid,
                       chat_text = escapeHtml (trim (take 200 t)), chat_time = now\<rparr>)
                    (rooms s (toString (currentStream c)))]
             \<and> chatMessages (snd (snd (chatSend cfg now sid (JString t) s))) (toString (currentStream c)) =
                 Some ((case chatMessages s (toString (currentStream c)) of
                          None \<Rightarrow> []
                        | Some ms \<Rightarrow> if length ms < 200 then ms else tl ms) @
                       [\<lparr>user = hashSocketId cfg sid,
                         chat_text = escapeHtml (trim (take 200 t)), chat_time = now\<rparr>])"
  proof (intro allI impI)
    fix now sid t c stream
    assume h: "conns s sid = Some c \<and> truthy (currentStream c)
             \<and> getStreamVal s (currentStream c) = Some stream \<and> active stream
             \<and> 6000 \<le> now - lastChatTime c \<and> escapeHtml (trim (take 200 t)) \<noteq> []"
    then have eq: "chatSend cfg now sid (JString t) s =
     (Returned,
      [ToRoom (toString (currentStream c))
         (ChatMessage \<lparr>user = hashSocketId cfg sid, chat_text = escapeHtml (trim (take 200 t)),
                       chat_time = now\<rparr>)
         (rooms s (toString (currentStream c)))],
      s\<lparr>conns := (conns s)(sid \<mapsto> c\<lparr>lastChatTime := now\<rparr>),
        chatMessages := (chatMessages s)(toString (currentStream c) \<mapsto>
          (case chatMessages s (toString (currentStream c)) of
             None \<Rightarrow> [\<lparr>user = hashSocketId cfg sid, chat_text = escapeHtml (trim (take 200 t)),
                       chat_time = now\<rparr>]
           | Some ms \<Rightarrow>
               if length ms < 200
               then ms @ [\<lparr>user = hashSocketId cfg sid, chat_text = escapeHtml (trim (take 200 t)),
                       chat_time = now\<rparr>]
               else tl ms @ [\<lparr>user = hashSocketId cfg sid, chat_text = escapeHtml (trim (take 200 t)),
                       chat_time = now\<rparr>]))\<rparr>)"
      by (intro chatSend_accepts [of s sid c stream now t cfg]) simp_all
    show "fst (chatSend cfg now sid (JString t) s) = Returned
             \<and> fst (snd (chatSend cfg now sid (JString t) s)) =
                 [ToRoom (toString (currentStream c))
                    (ChatMessage \<lparr>user = hashSocketId cfg sid,
                       chat_text = escapeHtml (trim (take 200 t)), chat_time = now\<rparr>)
                    (rooms s (toString (currentStream c)))]
             \<and> chatMessages (snd (snd (chatSend cfg now sid (JString t) s))) (toString (currentStream c)) =
                 Some ((case chatMessages s (toString (currentStream c)) of
                          None \<Rightarrow> []
                        | Some ms \<Rightarrow> if length ms < 200 then ms else tl ms) @
                       [\<lparr>user = hashSocketId cfg sid,
                         chat_text = escapeHtml (trim (take 200 t)), chat_time = now\<rparr>])"
      unfolding eq by (simp split: option.splits)
  qed
  from a b c d e f show ?thesis by (intro conjI)
qed

theorem bounded_histories_witness:
  "(\<exists>st. getStream (exampleAfter 499) (str ''Nova1'') = Some st \<and> length (lines st) = 500
      \<and> hd (lines st) = \<lparr>line_time = str ''00:00'', line_text = str ''hello'', line_type = str ''log''\<rparr>
      \<and> fst (send exampleConfig 30001500 (str ''unused'')
               (exampleRequest ''Nova1'' (JString (str ''s3cret'')) ''again'') (exampleAfter 499)) = Inr Success
      \<and> map_option lines
          (getStream
             (snd (snd (send exampleConfig 30001500 (str ''unused'')
                (exampleRequest ''Nova1'' (JString (str ''s3cret'')) ''again'') (exampleAfter 499))))
             (str ''Nova1''))
        = Some (tl (lines st) @
                [\<lparr>line_time = str ''08:20'', line_text = str ''again'',
                  line_type = str ''log''\<rparr>]))
   \<and> (\<exists>ms. chatMessages (exampleChatted 200) (str ''Nova1'') = Some ms \<and> length ms = 200
      \<and> chat_time (hd ms) = 6000
      \<and> fst (chatSend exampleConfig 1206000 (str ''sock1'') (JString (str ''hi'')) (exampleChatted 200))
          = Returned
      \<and> chatMessages
          (snd (snd (chatSend exampleConfig 1206000 (str ''sock1'') (JString (str ''hi''))
             (exampleChatted 200))))
          (str ''Nova1'')
        = Some (tl ms @
                [\<lparr>user = hashSocketId exampleConfig (str ''sock1''), chat_text = str ''hi'',
                  chat_time = 1206000\<rparr>]))"
proof -
  let ?n = "str ''Nova1''"
  let ?s = "exampleAfter 499"
  note t = bounded_histories [OF reachable_exampleAfter, of 499]
  from exampleAfter_inv [of 499] obtain st where st: "getStream ?s ?n = Some st"
    "token st = str ''s3cret''" "length (lines st) = 500"
    "hd (lines st) = \<lparr>line_time = str ''00:00'', line_text = str ''hello'', line_type = str ''log''\<rparr>"
    "?n \<notin> bannedAgents ?s"
    "\<forall>w. rateLimits ?s ?n = Some w \<longrightarrow> resetTime w = 61000 + 60001 * int 499"
    by auto
  have fresh: "\<forall>w. rateLimits ?s ?n = Some w \<longrightarrow> resetTime w < 30001500"
    using st(6) by auto
  have h: "getStream ?s (req_agentname (exampleRequest ''Nova1'' (JString (str ''s3cret'')) ''again'')) = Some st
             \<and> isValidAgentName (req_agentname (exampleRequest ''Nova1'' (JString (str ''s3cret'')) ''again'')) \<and> req_agentname (exampleRequest ''Nova1'' (JString (str ''s3cret'')) ''again'') \<notin> bannedAgents ?s
             \<and> req_text (exampleRequest ''Nova1'' (JString (str ''s3cret'')) ''again'') = JString (str ''again'') \<and> str ''again'' \<noteq> []
             \<and> length (str ''again'') \<le> 500 \<and> typeKnown (exampleRequest ''Nova1'' (JString (str ''s3cret'')) ''again'')
             \<and> req_token (exampleRequest ''Nova1'' (JString (str ''s3cret'')) ''again'') = JString (token st)
             \<and> fst (checkStreamRateLimit 30001500 (req_agentname (exampleRequest ''Nova1'' (JString (str ''s3cret'')) ''again'')) ?s)"
    using st(1,2,5) checkStreamRateLimit_fresh(1) [OF fresh] exampleAgain_facts by auto
  from t have "\<forall>now tok req stream msg.
             getStream ?s (req_agentname req) = Some stream
             \<and> isValidAgentName (req_agentname req) \<and> req_agentname req \<notin> bannedAgents ?s
             \<and> req_text req = JString msg \<and> msg \<noteq> [] \<and> length msg \<le> 500 \<and> typeKnown req
             \<and> req_token req = JString (token stream)
             \<and> fst (checkStreamRateLimit now (req_agentname req) ?s) \<longrightarrow>
             fst (send exampleConfig now tok req ?s) = Inr Success
             \<and> map_option lines (getStream (snd (snd (send exampleConfig now tok req ?s))) (req_agentname req)) =
                 Some ((if length (lines stream) < 500 then lines stream else tl (lines stream)) @
                       [\<lparr>line_time = formatTime exampleConfig now, line_text = escapeHtml msg,
                         line_type = toString (case req_type req of
                                                 JUndefined \<Rightarrow> JString (str ''log'') | v \<Rightarrow> v)\<rparr>])"
    by (elim conjE)
  with h have "fst (send exampleConfig 30001500 (str ''unused'') (exampleRequest ''Nova1'' (JString (str ''s3cret'')) ''again'') ?s) = Inr Success
             \<and> map_option lines (getStream (snd (snd (send exampleConfig 30001500 (str ''unused'') (exampleRequest ''Nova1'' (JString (str ''s3cret'')) ''again'') ?s))) (req_agentname (exampleRequest ''Nova1'' (JString (str ''s3cret'')) ''again''))) =
                 Some ((if length (lines st) < 500 then lines st else tl (lines st)) @
                       [\<lparr>line_time = formatTime exampleConfig 30001500, line_text = escapeHtml (str ''again''),
                         line_type = toString (case req_type (exampleRequest ''Nova1'' (JString (str ''s3cret'')) ''again'') of
                                                 JUndefined \<Rightarrow> JString (str ''log'') | v \<Rightarrow> v)\<rparr>])"
    by blast
  with st(3) have "fst (send exampleConfig 30001500 (str ''unused'') (exampleRequest ''Nova1'' (JString (str ''s3cret'')) ''again'') ?s) = Inr Success
      \<and> map_option lines
          (getStream (snd (snd (send exampleConfig 30001500 (str ''unused'') (exampleRequest ''Nova1'' (JString (str ''s3cret'')) ''again'') ?s))) ?n)
        = Some (tl (lines st) @
                [\<lparr>line_time = str ''08:20'', line_text = str ''again'',
                  line_type = str ''log''\<rparr>])"
    by (simp add: exampleAgain_facts formatTime_example)
  with st(1,3,4) have A: "\<exists>st. getStream ?s ?n = Some st \<and> length (lines st) = 500
      \<and> hd (lines st) = \<lparr>line_time = str ''00:00'', line_text = str ''hello'', line_type = str ''log''\<rparr>
      \<and> fst (send exampleConfig 30001500 (str ''unused'') (exampleRequest ''Nova1'' (JString (str ''s3cret'')) ''again'') ?s) = Inr Success
      \<and> map_option lines
          (getStream (snd (snd (send exampleConfig 30001500 (str ''unused'') (exampleRequest ''Nova1'' (JString (str ''s3cret'')) ''again'') ?s))) ?n)
        = Some (tl (lines st) @
                [\<lparr>line_time = str ''08:20'', line_text = str ''again'',
                  line_type = str ''log''\<rparr>])"
    by blast
  let ?u = "exampleChatted 200"
  let ?c = "\<lparr>currentStream = JString ?n, lastChatTime = 6000 * int 200\<rparr>"
  note t2 = bounded_histories [OF reachable_exampleChatted, of 200]
  from exampleChatted_inv [of 200] obtain stream ms where
    c: "conns ?u (str ''sock1'') = Some ?c"
    and g: "getStream ?u ?n = Some stream" "active stream"
    and ms: "chatMessages ?u ?n = Some ms" "length ms = 200" "chat_time (hd ms) = 6000"
    by (auto split: option.splits)
  have h2: "conns ?u (str ''sock1'') = Some ?c \<and> truthy (currentStream ?c)
             \<and> getStreamVal ?u (currentStream ?c) = Some stream \<and> active stream
             \<and> 6000 \<le> 1206000 - lastChatTime ?c \<and> escapeHtml (trim (take 200 (str ''hi''))) \<noteq> []"
    using c g by (simp add: hi_facts) (simp add: str_def)
  from t2 have "\<forall>now sid t c stream.
             conns ?u sid = Some c \<and> truthy (currentStream c)
             \<and> getStreamVal ?u (currentStream c) = Some stream \<and> active stream
             \<and> 6000 \<le> now - lastChatTime c \<and> escapeHtml (trim (take 200 t)) \<noteq> [] \<longrightarrow>
             fst (chatSend exampleConfig now sid (JString t) ?u) = Returned
             \<and> fst (snd (chatSend exampleConfig now sid (JString t) ?u)) =
                 [ToRoom (toString (currentStream c))
                    (ChatMessage \<lparr>user = hashSocketId exampleConfig sid,
                       chat_text = escapeHtml (trim (take 200 t)), chat_time = now\<rparr>)
                    (rooms ?u (toString (currentStream c)))]
             \<and> chatMessages (snd (snd (chatSend exampleConfig now sid (JString t) ?u))) (toString (currentStream c)) =
                 Some ((case chatMessages ?u (toString (currentStream c)) of
                          None \<Rightarrow> []
                        | Some ms \<Rightarrow> if length ms < 200 then ms else tl ms) @
                       [\<lparr>user = hashSocketId exampleConfig sid,
                         chat_text = escapeHtml (trim (take 200 t)), chat_time = now\<rparr>])"
    by (elim conjE)
  with h2 have "fst (chatSend exampleConfig 1206000 (str ''sock1'') (JString (str ''hi'')) ?u) = Returned
             \<and> chatMessages (snd (snd (chatSend exampleConfig 1206000 (str ''sock1'') (JString (str ''hi'')) ?u))) (toString (currentStream ?c)) =
                 Some ((case chatMessages ?u (toString (currentStream ?c)) of
                          None \<Rightarrow> []
                        | Some ms \<Rightarrow> if length ms < 200 then ms else tl ms) @
                       [\<lparr>user = hashSocketId exampleConfig (str ''sock1''),
                         chat_text = escapeHtml (trim (take 200 (str ''hi''))), chat_time = 1206000\<rparr>])"
    by blast
  with ms have "fst (chatSend exampleConfig 1206000 (str ''sock1'') (JString (str ''hi'')) ?u) = Returned
      \<and> chatMessages
          (snd (snd (chatSend exampleConfig 1206000 (str ''sock1'') (JString (str ''hi'')) ?u))) ?n
        = Some (tl ms @
                [\<lparr>user = hashSocketId exampleConfig (str ''sock1''), chat_text = str ''hi'',
                  chat_time = 1206000\<rparr>])"
    by (simp add: hi_facts)
  with ms have B: "\<exists>ms. chatMessages ?u ?n = Some ms \<and> length ms = 200
      \<and> chat_time (hd ms) = 6000
      \<and> fst (chatSend exampleConfig 1206000 (str ''sock1'') (JString (str ''hi'')) ?u) = Returned
      \<and> chatMessages
          (snd (snd (chatSend exampleConfig 1206000 (str ''sock1'') (JString (str ''hi'')) ?u))) ?n
        = Some (tl ms @
                [\<lparr>user = hashSocketId exampleConfig (str ''sock1''), chat_text = str ''hi'',
                  chat_time = 1206000\<rparr>])"
    by blast
  from A B show ?thesis by (rule conjI)
qed

section \<open>What a stored line looks like\<close>

lemma producedLine_props:
  assumes "producedLine cfg l"
  shows "(\<exists>msg. msg \<noteq> [] \<and> length msg \<le> 500 \<and> line_text l = escapeHtml msg)
     \<and> length (line_text l) \<le> 3000
     \<and> set (line_text l) \<inter> {0x3C, 0x3E, 0x22, 0x27} = {}
     \<and> line_type l \<in> {str ''log'', str ''tool'', str ''thought''}"
proof -
  from assms obtain now msg ty where m: "msg \<noteq> []" "length msg \<le> 500"
    "ty \<in> {str ''log'', str ''tool'', str ''thought''}"
    "l = \<lparr>line_time = formatTime cfg now, line_text = escapeHtml msg, line_type = ty\<rparr>"
    unfolding producedLine_def by blast
  have "length (escapeHtml msg) \<le> 6 * length msg" by (rule length_escapeHtml)
  with m(2) have "length (line_text l) \<le> 3000" using m(4) by simp
  moreover have "set (line_text l) \<inter> {0x3C, 0x3E, 0x22, 0x27} = {}"
    using m(4) set_escapeHtml [of msg] by simp
  moreover have "\<exists>msg. msg \<noteq> [] \<and> length msg \<le> 500 \<and> line_text l = escapeHtml msg"
    using m by auto
  moreover have "line_type l \<in> {str ''log'', str ''tool'', str ''thought''}"
    using m by simp
  ultimately show ?thesis by blast
qed

lemma send_accepted_line:
  assumes "send cfg now tok req s = (Inr r, es, s')"
  shows "\<exists>l stream'. es = [ToRoom (req_agentname req) (StreamLine l) (rooms s (req_agentname req))]
      \<and> producedLine cfg l \<and> getStream s' (req_agentname req) = Some stream'
      \<and> l \<in> set (lines stream')"
proof (cases rule: send_cases [of cfg now tok req s])
  case (rejected e)
  with assms show ?thesis by simp
next
  case (created msg ty s1)
  let ?n = "req_agentname req"
  let ?l = "\<lparr>line_time = formatTime cfg now, line_text = escapeHtml msg, line_type = ty\<rparr>"
  note fr = checkIPStreamCreationLimit_frame [OF created(8)]
  have p: "producedLine cfg ?l"
    unfolding producedLine_def using created(5,6,7) by blast
  have es: "es = [ToRoom ?n (StreamLine ?l) (rooms s ?n)]"
    using assms created(9) fr by (simp add: send_create_def Let_def)
  have "s' = snd (snd (send_create cfg now tok ?n msg ty s1))"
    using assms created(9) by simp
  then have "\<exists>stream'. getStream s' ?n = Some stream' \<and> ?l \<in> set (lines stream')"
    by (simp add: getStream_send_create)
  with es p show ?thesis by blast
next
  case (appended msg ty stream s1)
  let ?n = "req_agentname req"
  from assms appended(10) have r: "r = Success"
    by (simp add: send_append_def Let_def)
  from send_success_appends [OF appended(1), of cfg now tok es s'] assms r
  obtain l where l: "es = [ToRoom ?n (StreamLine l) (rooms s ?n)]" "producedLine cfg l"
    "map_option lines (getStream s' ?n) =
       Some (let pushed = lines stream @ [l] in if length pushed > 500 then tl pushed else pushed)"
    by blast
  from l(3) obtain stream' where s': "getStream s' ?n = Some stream'"
    "lines stream' = (let pushed = lines stream @ [l] in if length pushed > 500 then tl pushed else pushed)"
    by (cases "getStream s' ?n") auto
  have "l \<in> set (lines stream')"
  proof (cases "lines stream")
    case Nil
    with s'(2) show ?thesis by (simp add: Let_def)
  next
    case (Cons x xs)
    with s'(2) show ?thesis by (simp add: Let_def)
  qed
  with l s' show ?thesis by blast
qed

text \<open>
  Claim C7, as stated: every stored line has a text of at most 500 characters. The handler
  bounds the submitted text and escapes it afterwards, and escaping lengthens it: a first
  send of 500 double quotes is accepted and stores a text of 3000 code units.
\<close>

theorem stored_line_length_counterexample:
  "fst (send exampleConfig 1000 (str ''s3cret'') exampleQuotes (startup 0 0))
     = Inr (SuccessToken (str ''s3cret''))
   \<and> map_option (\<lambda>stream. map (\<lambda>l. length (line_text l)) (lines stream))
        (getStream (step exampleConfig (ASend 1000 (str ''s3cret'') exampleQuotes) (startup 0 0))
           (str ''Nova1''))
     = Some [3000]
   \<and> reachable exampleConfig (step exampleConfig (ASend 1000 (str ''s3cret'') exampleQuotes) (startup 0 0))"
proof -
  have "isValidAgentName (str ''Nova1'')"
    by (simp add: isValidAgentName_def isNameChar_def str_def)
  then have e: "send exampleConfig 1000 (str ''s3cret'') exampleQuotes (startup 0 0) =
    send_create exampleConfig 1000 (str ''s3cret'') (str ''Nova1'') (replicate 500 0x22) (str ''log'')
      ((startup 0 0)\<lparr>ipStreamCreation := [str ''10.0.0.1'' \<mapsto> \<lparr>count = 1, resetTime = 3601000\<rparr>]\<rparr>)"
    by (simp add: send_def exampleQuotes_def startup_def logActivity_def getStream_def
        checkIPStreamCreationLimit_def Let_def)
  have a: "fst (send exampleConfig 1000 (str ''s3cret'') exampleQuotes (startup 0 0))
     = Inr (SuccessToken (str ''s3cret''))"
    unfolding e by (simp add: send_create_def Let_def)
  have b: "map_option (\<lambda>stream. map (\<lambda>l. length (line_text l)) (lines stream))
        (getStream (step exampleConfig (ASend 1000 (str ''s3cret'') exampleQuotes) (startup 0 0))
           (str ''Nova1''))
     = Some [3000]"
    unfolding step.simps e by (simp add: getStream_send_create escapeHtml_quotes)
  have "enabled (ASend 1000 (str ''s3cret'') exampleQuotes) (startup 0 0)" by simp
  with reachable_startup
  have c: "reachable exampleConfig (step exampleConfig (ASend 1000 (str ''s3cret'') exampleQuotes) (startup 0 0))"
    by (rule reachable_step)
  from a b c show ?thesis by blast
qed

text \<open>
  Claim C7, amended. Every line stored in a reachable state, and the line of every accepted
  send, has as its text the escaped form of a submitted text of 1 to 500 code units: it has
  at most 3000 code units and contains none of \<open><\<close>, \<open>>\<close>, the double quote and the
  apostrophe; and its type is one of \<open>log\<close>, \<open>tool\<close>, \<open>thought\<close>.
\<close>

theorem stored_lines_sanitized:
  assumes "reachable cfg s"
  shows "(\<forall>n stream l. getStream s n = Some stream \<and> l \<in> set (lines stream) \<longrightarrow>
            (\<exists>msg. msg \<noteq> [] \<and> length msg \<le> 500 \<and> line_text l = escapeHtml msg)
            \<and> length (line_text l) \<le> 3000
            \<and> set (line_text l) \<inter> {0x3C, 0x3E, 0x22, 0x27} = {}
            \<and> line_type l \<in> {str ''log'', str ''tool'', str ''thought''})
       \<and> (\<forall>now tok req r es s'. send cfg now tok req s = (Inr r, es, s') \<longrightarrow>
            (\<exists>l stream'. es = [ToRoom (req_agentname req) (StreamLine l) (rooms s (req_agentname req))]
               \<and> getStream s' (req_agentname req) = Some stream' \<and> l \<in> set (lines stream')
               \<and> (\<exists>msg. msg \<noteq> [] \<and> length msg \<le> 500 \<and> line_text l = escapeHtml msg)
               \<and> length (line_text l) \<le> 3000
               \<and> set (line_text l) \<inter> {0x3C, 0x3E, 0x22, 0x27} = {}
               \<and> line_type l \<in> {str ''log'', str ''tool'', str ''thought''}))"
proof (rule conjI)
  show "\<forall>n stream l. getStream s n = Some stream \<and> l \<in> set (lines stream) \<longrightarrow>
            (\<exists>msg. msg \<noteq> [] \<and> length msg \<le> 500 \<and> line_text l = escapeHtml msg)
            \<and> length (line_text l) \<le> 3000
            \<and> set (line_text l) \<inter> {0x3C, 0x3E, 0x22, 0x27} = {}
            \<and> line_type l \<in> {str ''log'', str ''tool'', str ''thought''}"
  proof (intro allI impI)
  fix n stream l
  assume "getStream s n = Some stream \<and> l \<in> set (lines stream)"
  with assms have "producedLine cfg l"
    using reachable_lines by blast
  then show "(\<exists>msg. msg \<noteq> [] \<and> length msg \<le> 500 \<and> line_text l = escapeHtml msg)
            \<and> length (line_text l) \<le> 3000
            \<and> set (line_text l) \<inter> {0x3C, 0x3E, 0x22, 0x27} = {}
            \<and> line_type l \<in> {str ''log'', str ''tool'', str ''thought''}"
    by (rule producedLine_props)
  qed
next
  show "\<forall>now tok req r es s'. send cfg now tok req s = (Inr r, es, s') \<longrightarrow>
            (\<exists>l stream'. es = [ToRoom (req_agentname req) (StreamLine l) (rooms s (req_agentname req))]
               \<and> getStream s' (req_agentname req) = Some stream' \<and> l \<in> set (lines stream')
               \<and> (\<exists>msg. msg \<noteq> [] \<and> length msg \<le> 500 \<and> line_text l = escapeHtml msg)
               \<and> length (line_text l) \<le> 3000
               \<and> set (line_text l) \<inter> {0x3C, 0x3E, 0x22, 0x27} = {}
               \<and> line_type l \<in> {str ''log'', str ''tool'', str ''thought''})"
  proof (intro allI impI)
  fix now tok req r es s'
  assume "send cfg now tok req s = (Inr r, es, s')"
  then obtain l stream' where l: "es = [ToRoom (req_agentname req) (StreamLine l) (rooms s (req_agentname req))]"
    "producedLine cfg l" "getStream s' (req_agentname req) = Some stream'" "l \<in> set (lines stream')"
    using send_accepted_line by blast
  from producedLine_props [OF l(2)] l(1,3,4)
  show "\<exists>l stream'. es = [ToRoom (req_agentname req) (StreamLine l) (rooms s (req_agentname req))]
               \<and> getStream s' (req_agentname req) = Some stream' \<and> l \<in> set (lines stream')
               \<and> (\<exists>msg. msg \<noteq> [] \<and> length msg \<le> 500 \<and> line_text l = escapeHtml msg)
               \<and> length (line_text l) \<le> 3000
               \<and> set (line_text l) \<inter> {0x3C, 0x3E, 0x22, 0x27} = {}
               \<and> line_type l \<in> {str ''log'', str ''tool'', str ''thought''}"
    by blast
  qed
qed

theorem stored_lines_sanitized_witness:
  "map_option (map line_text \<circ> lines) (getStream exampleLive (str ''Nova1'')) = Some [str ''hello'']
   \<and> (\<exists>msg. msg \<noteq> [] \<and> length msg \<le> 500 \<and> str ''hello'' = escapeHtml msg)
   \<and> set (str ''hello'') \<inter> {0x3C, 0x3E, 0x22, 0x27} = {}"
proof -
  note t = stored_lines_sanitized [OF reachable_exampleLive]
  let ?l = "\<lparr>line_time = str ''00:00'', line_text = str ''hello'', line_type = str ''log''\<rparr>"
  let ?st = "\<lparr>token = str ''s3cret'', active = True, lines = [?l],
          viewers = [], startedAt = 1000, lastActivity = 1000, peakViewers = 0, totalMessages = 1\<rparr>"
  have g: "getStream exampleLive (str ''Nova1'') = Some ?st \<and> ?l \<in> set (lines ?st)"
    by (simp add: exampleLive_eq getStream_def)
  with t have "(\<exists>msg. msg \<noteq> [] \<and> length msg \<le> 500 \<and> line_text ?l = escapeHtml msg)
            \<and> length (line_text ?l) \<le> 3000
            \<and> set (line_text ?l) \<inter> {0x3C, 0x3E, 0x22, 0x27} = {}
            \<and> line_type ?l \<in> {str ''log'', str ''tool'', str ''thought''}"
    by blast
  with g show ?thesis by simp
qed

section \<open>One stream per connection\<close>

text \<open>
  Claim C9. In every reachable state a connection identifier is in the viewer set of at most
  one stream. After a join with a valid name the connection is in the viewer set of no
  stream other than the one joined, so it has left that of its previous stream; after a
  disconnect it is in no viewer set.
\<close>

theorem viewer_in_one_stream:
  assumes "reachable cfg s"
  shows "(\<forall>sid n1 n2 st1 st2.
            getStream s n1 = Some st1 \<and> getStream s n2 = Some st2
            \<and> sid \<in> set (viewers st1) \<and> sid \<in> set (viewers st2) \<longrightarrow> n1 = n2)
       \<and> (\<forall>sid a c m st'.
            conns s sid = Some c \<and> truthy a \<and> isValidAgentName (toString a)
            \<and> getStream (snd (join cfg sid a s)) m = Some st' \<and> sid \<in> set (viewers st') \<longrightarrow>
            a = JString m)
       \<and> (\<forall>sid m st'. getStream (snd (disconnect sid s)) m = Some st' \<longrightarrow> sid \<notin> set (viewers st'))"
proof (intro conjI allI impI)
  note inv = reachable_tracked [OF assms]
  fix sid n1 n2 st1 st2
  assume "getStream s n1 = Some st1 \<and> getStream s n2 = Some st2
            \<and> sid \<in> set (viewers st1) \<and> sid \<in> set (viewers st2)"
  with inv have "(\<exists>c. conns s sid = Some c \<and> currentStream c = JString n1)
      \<and> (\<exists>c. conns s sid = Some c \<and> currentStream c = JString n2)"
    unfolding viewersTracked_def by blast
  then show "n1 = n2" by auto
next
  note inv = reachable_tracked [OF assms]
  fix sid a c m st'
  assume h: "conns s sid = Some c \<and> truthy a \<and> isValidAgentName (toString a)
            \<and> getStream (snd (join cfg sid a s)) m = Some st' \<and> sid \<in> set (viewers st')"
  then have c: "conns s sid = Some c" "truthy a" "isValidAgentName (toString a)"
    and g: "getStream (snd (join cfg sid a s)) m = Some st'" and x: "sid \<in> set (viewers st')"
    by simp_all
  from join_viewers_cases [OF c g x] show "a = JString m"
  proof
    assume "sid = sid \<and> a = JString m"
    then show ?thesis by simp
  next
    assume "\<exists>st. getStream s m = Some st \<and> sid \<in> set (viewers st)
             \<and> \<not> (sid = sid \<and> truthy (currentStream c) \<and> currentStream c = JString m)"
    then obtain st where st: "getStream s m = Some st" "sid \<in> set (viewers st)"
      "\<not> (truthy (currentStream c) \<and> currentStream c = JString m)"
      by auto
    from inv st(1,2) c(1) have "currentStream c = JString m \<and> m \<noteq> []"
      unfolding viewersTracked_def by fastforce
    with st(3) show ?thesis by simp
  qed
next
  note inv = disconnect_tracked [OF reachable_tracked [OF assms]]
  fix sid m st'
  assume g: "getStream (snd (disconnect sid s)) m = Some st'"
  show "sid \<notin> set (viewers st')"
  proof
    assume "sid \<in> set (viewers st')"
    with inv g have "\<exists>c. conns (snd (disconnect sid s)) sid = Some c"
      unfolding viewersTracked_def by blast
    then show False by (simp add: disconnect_conns)
  qed
qed

theorem viewer_in_one_stream_witness:
  "map_option viewers (getStream exampleWatched (str ''Nova1'')) = Some [str ''sock1'']
   \<and> map_option (\<lambda>stream. str ''sock1'' \<in> set (viewers stream))
        (getStream (snd (disconnect (str ''sock1'') exampleWatched)) (str ''Nova1'')) = Some False"
proof -
  note t = viewer_in_one_stream [OF reachable_exampleWatched]
  have a: "map_option viewers (getStream exampleWatched (str ''Nova1'')) = Some [str ''sock1'']"
    by (simp add: exampleWatched_eq getStream_def)
  have "getStream (snd (disconnect (str ''sock1'') exampleWatched)) (str ''Nova1'') \<noteq> None"
    unfolding getStream_disconnect by (simp add: exampleWatched_eq getStream_def)
  then obtain st' where g: "getStream (snd (disconnect (str ''sock1'') exampleWatched)) (str ''Nova1'') = Some st'"
    by auto
  with t have "str ''sock1'' \<notin> set (viewers st')" by blast
  with g a show ?thesis by simp
qed

section \<open>Joining a stream that is at capacity\<close>

lemma join_full:
  assumes c: "conns s sid = Some c" and t: "truthy a" and v: "isValidAgentName (toString a)"
    and g: "getStream s (toString a) = Some stream"
    and full: "MAX_VIEWERS_PER_STREAM cfg \<le>
        int (length (if currentStream c = JString (toString a)
                     then setDelete sid (viewers stream) else viewers stream))"
  shows "join cfg sid a s =
    (fst (leavePrevious sid (currentStream c) s) @
       (if a = JString (toString a) then [ToSocket sid (ErrorEvent StreamAtCapacity)]
        else [ToSocket sid (StreamInit []), ToSocket sid (ChatInit [])]),
     (snd (leavePrevious sid (currentStream c) s))
       \<lparr>conns := (conns s)(sid \<mapsto> c\<lparr>currentStream := a\<rparr>),
        rooms := (rooms (snd (leavePrevious sid (currentStream c) s)))
                   (toString a := insert sid (rooms (snd (leavePrevious sid (currentStream c) s)) (toString a)))\<rparr>)"
proof (cases "a = JString (toString a)")
  case True
  let ?n = "toString a"
  from v have ne: "?n \<noteq> []" by (auto simp: isValidAgentName_def)
  let ?s1 = "snd (leavePrevious sid (currentStream c) s)"
  let ?vs = "if currentStream c = JString ?n then setDelete sid (viewers stream) else viewers stream"
  have "getStream ?s1 ?n = Some (stream\<lparr>viewers := ?vs\<rparr>)"
    using g ne by (auto simp: getStream_leavePrevious)
  then have "getStreamVal ?s1 (JString ?n) = Some (stream\<lparr>viewers := ?vs\<rparr>)" by simp
  with True have "getStreamVal ?s1 a = Some (stream\<lparr>viewers := ?vs\<rparr>)" by simp
  with full True show ?thesis
    unfolding join_valid [OF c t v] by (simp add: Let_def)
next
  case False
  then have "getStreamVal (snd (leavePrevious sid (currentStream c) s)) a = None"
    by (cases a) simp_all
  with False show ?thesis
    unfolding join_valid [OF c t v] by (simp add: Let_def)
qed

lemma reachable_exampleFull: "reachable exampleSmallConfig exampleFull"
proof -
  let ?cfg = "exampleSmallConfig"
  let ?a1 = "ASend 1000 (str ''s3cret'') (exampleRequest ''Nova1'' JUndefined ''hello'')"
  let ?a2 = "ASend 1100 (str ''t0ken2'') (exampleRequest ''Other1'' JUndefined ''hi'')"
  let ?a3 = "AConnection 1500 (str ''sock1'') (str ''10.0.0.2'')"
  let ?a4 = "AJoin (str ''sock1'') (JString (str ''Nova1''))"
  let ?a5 = "AConnection 1600 (str ''sock2'') (str ''10.0.0.2'')"
  let ?a6 = "AJoin (str ''sock2'') (JString (str ''Other1''))"
  let ?s2 = "step ?cfg ?a2 (step ?cfg ?a1 (startup 0 0))"
  let ?s3 = "step ?cfg ?a3 ?s2"
  let ?s4 = "step ?cfg ?a4 ?s3"
  have c2: "conns ?s2 = Map.empty"
    by (simp add: conns_send startup_def)
  have "reachable ?cfg (step ?cfg ?a1 (startup 0 0))"
    using reachable_startup by (rule reachable_step) simp
  then have r2: "reachable ?cfg ?s2"
    by (rule reachable_step) simp
  have "enabled ?a3 ?s2"
    using c2 by simp
  with r2 have r3: "reachable ?cfg ?s3"
    by (rule reachable_step)
  then have r4: "reachable ?cfg ?s4"
    by (rule reachable_step) simp
  have n3: "conns ?s3 (str ''sock2'') = None"
    using conns_connection [of 1500 "str ''sock1''" "str ''10.0.0.2''" ?s2 "str ''sock2''"] c2
    by (simp add: str_def)
  have n4: "conns ?s4 (str ''sock2'') = None"
  proof (cases "conns ?s3 (str ''sock1'') = None \<or> \<not> truthy (JString (str ''Nova1''))
      \<or> \<not> isValidAgentName (toString (JString (str ''Nova1'')))")
    case True
    then have "snd (join ?cfg (str ''sock1'') (JString (str ''Nova1'')) ?s3) = ?s3"
      by (rule join_invalid)
    with n3 show ?thesis by simp
  next
    case False
    then obtain c where c: "conns ?s3 (str ''sock1'') = Some c" "truthy (JString (str ''Nova1''))"
      "isValidAgentName (toString (JString (str ''Nova1'')))" by auto
    from join_conns [OF c, of ?cfg] n3 show ?thesis by (simp add: str_def)
  qed
  have "enabled ?a5 ?s4"
    using n4 by simp
  with r4 have "reachable ?cfg (step ?cfg ?a5 ?s4)"
    by (rule reachable_step)
  then have "reachable ?cfg (step ?cfg ?a6 (step ?cfg ?a5 ?s4))"
    by (rule reachable_step) simp
  moreover have "exampleFull = step ?cfg ?a6 (step ?cfg ?a5 ?s4)"
    by (simp add: exampleFull_def)
  ultimately show ?thesis by simp
qed

lemma exampleFull_rejoin:
  "fst (join exampleSmallConfig (str ''sock1'') (JString (str ''Nova1'')) exampleFull) =
     [ToRoom (str ''Nova1'') (ViewerCount 0) {},
      ToSocket (str ''sock1'')
        (StreamInit [\<lparr>line_time = str ''00:00'', line_text = str ''hello'', line_type = str ''log''\<rparr>]),
      ToSocket (str ''sock1'') (ChatInit []),
      ToRoom (str ''Nova1'') (ViewerCount 1) {str ''sock1''}]"
  "map_option viewers
     (getStream (snd (join exampleSmallConfig (str ''sock1'') (JString (str ''Nova1'')) exampleFull))
        (str ''Nova1'')) = Some [str ''sock1'']"
  by (simp_all add: exampleFull_eq exampleSmallConfig_def exampleConfig_def
      join_def leavePrevious_def isValidAgentName_def isNameChar_def
      str_def getStream_def updateStream_def setAdd_def setDelete_def updatePeakViewers_def
      getCurrentViewerCount_def MAX_VIEWERS_PER_STREAM_def Let_def)

lemma exampleFull_array:
  "fst (join exampleSmallConfig (str ''sock2'') (JOther True (str ''Nova1'')) exampleFull) =
     [ToRoom (str ''Other1'') (ViewerCount 0) {},
      ToSocket (str ''sock2'') (StreamInit []),
      ToSocket (str ''sock2'') (ChatInit [])]"
  "str ''sock2'' \<in>
     rooms (snd (join exampleSmallConfig (str ''sock2'') (JOther True (str ''Nova1'')) exampleFull))
       (str ''Nova1'')"
  "map_option viewers
     (getStream (snd (join exampleSmallConfig (str ''sock2'') (JOther True (str ''Nova1'')) exampleFull))
        (str ''Nova1'')) = Some [str ''sock1'']"
  by (simp_all add: exampleFull_eq exampleSmallConfig_def exampleConfig_def
      join_def leavePrevious_def isValidAgentName_def isNameChar_def
      str_def getStream_def updateStream_def setAdd_def setDelete_def updatePeakViewers_def
      getCurrentViewerCount_def MAX_VIEWERS_PER_STREAM_def Let_def)




section \<open>Racing first sends\<close>

lemma exampleTenCreated_facts:
  "ipStreamCreation exampleTenCreated (str ''10.0.0.1'') = Some \<lparr>count = 10, resetTime = 3601000\<rparr>
   \<and> getStream exampleTenCreated (str ''Nova1'') = None
   \<and> str ''Nova1'' \<notin> bannedAgents exampleTenCreated"
  by (simp add: exampleTenCreated_def eval_defs)

lemma send_existing:
  assumes "getStream s (req_agentname req) = Some st"
  shows "\<not> isCreated (fst (send cfg now tok req s))
     \<and> map_option token (getStream (snd (snd (send cfg now tok req s))) (req_agentname req)) = Some (token st)"
proof (cases rule: send_cases [of cfg now tok req s])
  case (rejected e)
  with assms show ?thesis by simp
next
  case (created msg ty s1)
  with assms show ?thesis by simp
next
  case (appended msg ty stream s1)
  have g: "getStream s1 (req_agentname req) = Some stream"
    using checkStreamRateLimit_frame [OF appended(9)] appended(1) by (simp add: getStream_def)
  from appended(1) assms have "stream = st" by simp
  with appended(10) getStream_send_append [OF g, of cfg now msg ty "req_agentname req"]
  show ?thesis by (simp add: send_append_def Let_def)
qed

lemma send_absent:
  assumes "getStream s (req_agentname req) = None"
  shows "(admitted now req s \<and> fst (send cfg now tok req s) = Inr (SuccessToken tok)
          \<and> map_option token (getStream (snd (snd (send cfg now tok req s))) (req_agentname req)) = Some tok)
       \<or> (\<not> admitted now req s \<and> \<not> isCreated (fst (send cfg now tok req s))
          \<and> snd (snd (send cfg now tok req s)) = s)"
proof (cases "isValidAgentName (req_agentname req) \<and> req_agentname req \<notin> bannedAgents s \<and> validMessage req")
  case False
  then obtain e where "send cfg now tok req s = (Inl e, [], s)"
    using send_rejected_invalid [of req s cfg now tok] by blast
  with False show ?thesis by (auto simp: admitted_def)
next
  case True
  then have v: "isValidAgentName (req_agentname req)" "req_agentname req \<notin> bannedAgents s"
    "validMessage req" by simp_all
  from send_valid [OF v, of cfg now tok] assms obtain msg ty where
    eq: "send cfg now tok req s =
             (case checkIPStreamCreationLimit now (req_ip req) s of
                (False, s1) \<Rightarrow> (Inl CreationRateLimit, [], s1)
              | (True, s1) \<Rightarrow> send_create cfg now tok (req_agentname req) msg ty s1)"
    by auto
  obtain b s1 where c: "checkIPStreamCreationLimit now (req_ip req) s = (b, s1)"
    by (cases "checkIPStreamCreationLimit now (req_ip req) s")
  show ?thesis
  proof (cases b)
    case True
    with c eq have e: "send cfg now tok req s = send_create cfg now tok (req_agentname req) msg ty s1"
      by simp
    have "admitted now req s" using v c True by (simp add: admitted_def)
    moreover have "fst (send cfg now tok req s) = Inr (SuccessToken tok)"
      unfolding e by (simp add: send_create_def Let_def)
    moreover have "map_option token (getStream (snd (snd (send cfg now tok req s))) (req_agentname req)) = Some tok"
      unfolding e by (simp add: getStream_send_create)
    ultimately show ?thesis by blast
  next
    case False
    with c have "s1 = s" by (simp add: checkIPStreamCreationLimit_denied)
    with c eq False have "send cfg now tok req s = (Inl CreationRateLimit, [], s)" by simp
    moreover have "\<not> admitted now req s" using c False by (simp add: admitted_def)
    ultimately show ?thesis by simp
  qed
qed

lemma sendAll_Cons:
  "sendAll cfg ((now, tok, req) # rest) s =
     (fst (send cfg now tok req s) # fst (sendAll cfg rest (snd (snd (send cfg now tok req s)))),
      snd (sendAll cfg rest (snd (snd (send cfg now tok req s)))))"
  by (simp add: Let_def split: prod.splits)

lemma sendAll_existing:
  "getStream s n = Some st \<Longrightarrow> \<forall>(now, tok, req)\<in>set reqs. req_agentname req = n \<Longrightarrow>
   filter isCreated (fst (sendAll cfg reqs s)) = []
   \<and> map_option token (getStream (snd (sendAll cfg reqs s)) n) = Some (token st)"
proof (induction reqs arbitrary: s st)
  case Nil
  then show ?case by simp
next
  case (Cons x reqs)
  obtain now tok req where x: "x = (now, tok, req)" by (cases x)
  with Cons.prems have n: "req_agentname req = n" by simp
  obtain r es s1 where s: "send cfg now tok req s = (r, es, s1)"
    by (cases "send cfg now tok req s")
  from send_existing [of s req st cfg now tok] Cons.prems(1) n s
  have r: "\<not> isCreated r" and "map_option token (getStream s1 n) = Some (token st)"
    by simp_all
  then obtain st1 where st1: "getStream s1 n = Some st1" "token st1 = token st"
    by (cases "getStream s1 n") auto
  from Cons.IH [OF st1(1)] Cons.prems(2)
  have "filter isCreated (fst (sendAll cfg reqs s1)) = []
     \<and> map_option token (getStream (snd (sendAll cfg reqs s1)) n) = Some (token st1)"
    by simp
  with x s r st1(2) show ?case by (simp add: sendAll_Cons del: sendAll.simps)
qed

lemma sendAll_absent:
  "getStream s n = None \<Longrightarrow> \<forall>(now, tok, req)\<in>set reqs. req_agentname req = n \<Longrightarrow>
   length (filter isCreated (fst (sendAll cfg reqs s))) \<le> 1
   \<and> (length (filter isCreated (fst (sendAll cfg reqs s))) = 1
        \<longleftrightarrow> getStream (snd (sendAll cfg reqs s)) n \<noteq> None)
   \<and> (\<forall>tok. Inr (SuccessToken tok) \<in> set (fst (sendAll cfg reqs s)) \<longrightarrow>
          map_option token (getStream (snd (sendAll cfg reqs s)) n) = Some tok)"
proof (induction reqs arbitrary: s)
  case Nil
  then show ?case by simp
next
  case (Cons x reqs)
  obtain now tok req where x: "x = (now, tok, req)" by (cases x)
  with Cons.prems have n: "req_agentname req = n" by simp
  from Cons.prems(2) have rest: "\<forall>(now, tok, req)\<in>set reqs. req_agentname req = n" by simp
  obtain r es s1 where s: "send cfg now tok req s = (r, es, s1)"
    by (cases "send cfg now tok req s")
  from send_absent [of s req now cfg tok] Cons.prems(1) n s
  consider (made) "r = Inr (SuccessToken tok)" "map_option token (getStream s1 n) = Some tok"
    | (not_made) "\<not> isCreated r" "s1 = s"
    by auto
  then show ?case
  proof cases
    case made
    then obtain st1 where st1: "getStream s1 n = Some st1" "token st1 = tok"
      by (cases "getStream s1 n") auto
    from sendAll_existing [OF st1(1) rest, of cfg]
    have e: "filter isCreated (fst (sendAll cfg reqs s1)) = []"
      "map_option token (getStream (snd (sendAll cfg reqs s1)) n) = Some tok"
      using st1(2) by simp_all
    from e(1) have "\<forall>t. Inr (SuccessToken t) \<notin> set (fst (sendAll cfg reqs s1))"
      by (auto simp: filter_empty_conv)
    with x s made(1) e show ?thesis
      by (auto simp: sendAll_Cons simp del: sendAll.simps)
  next
    case not_made
    from Cons.IH [OF Cons.prems(1) rest]
    have ih: "length (filter isCreated (fst (sendAll cfg reqs s))) \<le> 1
       \<and> (length (filter isCreated (fst (sendAll cfg reqs s))) = 1
            \<longleftrightarrow> getStream (snd (sendAll cfg reqs s)) n \<noteq> None)
       \<and> (\<forall>tok. Inr (SuccessToken tok) \<in> set (fst (sendAll cfg reqs s)) \<longrightarrow>
              map_option token (getStream (snd (sendAll cfg reqs s)) n) = Some tok)" .
    from not_made(1) have "\<forall>t. r \<noteq> Inr (SuccessToken t)" by auto
    with x s not_made ih show ?thesis
      by (auto simp: sendAll_Cons simp del: sendAll.simps)
  qed
qed

lemma reachable_run: "reachable cfg s \<Longrightarrow> \<forall>a\<in>set as. \<forall>now sid ip. a \<noteq> AConnection now sid ip \<Longrightarrow>
  reachable cfg (run cfg as s)"
proof (induction as arbitrary: s)
  case Nil
  then show ?case by simp
next
  case (Cons a as)
  from Cons.prems(2) have "enabled a s" by (cases a) auto
  with Cons.prems(1) have "reachable cfg (step cfg a s)" by (rule reachable_step)
  with Cons show ?case by simp
qed

lemma send_creation_limited:
  assumes "isValidAgentName (req_agentname req)" "req_agentname req \<notin> bannedAgents s"
    "validMessage req" "getStream s (req_agentname req) = None"
    "ipStreamCreation s (req_ip req) = Some w" "now \<le> resetTime w" "count w \<ge> 10"
  shows "send cfg now tok req s = (Inl CreationRateLimit, [], s)"
proof -
  from assms(5,6,7) have "checkIPStreamCreationLimit now (req_ip req) s = (False, s)"
    by (simp add: checkIPStreamCreationLimit_def)
  with send_valid [OF assms(1,2,3), of cfg now tok] assms(4) show ?thesis by auto
qed

text \<open>
  Claim C2, as stated: for any valid name without a session, racing first sends create
  exactly one session. Node serves the racing requests one whole handler run after the
  other, in some order. When the client address has used up its ten creations for the
  hour, every one of them is answered 429 and no session is created.
\<close>

theorem first_sends_counterexample:
  "reachable exampleConfig exampleTenCreated
   \<and> isValidAgentName (str ''Nova1'')
   \<and> getStream exampleTenCreated (str ''Nova1'') = None
   \<and> sendAll exampleConfig
        [(2000, str ''a'', exampleRequest ''Nova1'' JUndefined ''hello''),
         (2001, str ''b'', exampleRequest ''Nova1'' JUndefined ''hello'')]
        exampleTenCreated
      = ([Inl CreationRateLimit, Inl CreationRateLimit], exampleTenCreated)
   \<and> status CreationRateLimit = 429"
proof -
  have r: "reachable exampleConfig exampleTenCreated"
    unfolding exampleTenCreated_def by (rule reachable_run [OF reachable_startup]) simp
  have v: "isValidAgentName (str ''Nova1'')"
    by (simp add: isValidAgentName_def isNameChar_def str_def)
  note f = exampleTenCreated_facts
  have s: "send exampleConfig now tok (exampleRequest ''Nova1'' JUndefined ''hello'') exampleTenCreated
      = (Inl CreationRateLimit, [], exampleTenCreated)" if "now \<le> 3601000" for now tok
    using v f that
    by (intro send_creation_limited [where w = "\<lparr>count = 10, resetTime = 3601000\<rparr>"])
       (simp_all add: exampleRequest_def validMessage_def str_def)
  have "sendAll exampleConfig
        [(2000, str ''a'', exampleRequest ''Nova1'' JUndefined ''hello''),
         (2001, str ''b'', exampleRequest ''Nova1'' JUndefined ''hello'')]
        exampleTenCreated
      = ([Inl CreationRateLimit, Inl CreationRateLimit], exampleTenCreated)"
    by (simp add: s)
  with r v f show ?thesis by simp
qed

text \<open>
  Claim C2, amended. For a name without a session, first sends for it served in any order
  create at most one session and return at most one token; exactly one is created if and
  only if the name has a session afterwards, which is the case as soon as one of them is
  admitted: the name is valid and not banned, the body is valid, and the creation limiter
  allows the client address. The token returned is the token of the session.
\<close>

theorem first_sends_create_at_most_one:
  assumes "getStream s n = None"
    and "\<forall>(now, tok, req)\<in>set reqs. req_agentname req = n"
  shows "length (filter isCreated (fst (sendAll cfg reqs s))) \<le> 1
       \<and> (length (filter isCreated (fst (sendAll cfg reqs s))) = 1
            \<longleftrightarrow> getStream (snd (sendAll cfg reqs s)) n \<noteq> None)
       \<and> (\<forall>tok. Inr (SuccessToken tok) \<in> set (fst (sendAll cfg reqs s)) \<longrightarrow>
              map_option token (getStream (snd (sendAll cfg reqs s)) n) = Some tok)
       \<and> (\<forall>now tok req. req_agentname req = n \<longrightarrow>
              (isCreated (fst (send cfg now tok req s)) \<longleftrightarrow> admitted now req s))
       \<and> (\<forall>now tok req rest. reqs = (now, tok, req) # rest \<and> admitted now req s \<longrightarrow>
              length (filter isCreated (fst (sendAll cfg reqs s))) = 1
              \<and> hd (fst (sendAll cfg reqs s)) = Inr (SuccessToken tok))"
proof -
  note main = sendAll_absent [OF assms, of cfg]
  have one: "\<forall>now tok req. req_agentname req = n \<longrightarrow>
              (isCreated (fst (send cfg now tok req s)) \<longleftrightarrow> admitted now req s)"
  proof (intro allI impI)
    fix now tok and req :: sendRequest
    assume "req_agentname req = n"
    with assms(1) send_absent [of s req now cfg tok]
    show "isCreated (fst (send cfg now tok req s)) \<longleftrightarrow> admitted now req s"
      by auto
  qed
  have first: "\<forall>now tok req rest. reqs = (now, tok, req) # rest \<and> admitted now req s \<longrightarrow>
              length (filter isCreated (fst (sendAll cfg reqs s))) = 1
              \<and> hd (fst (sendAll cfg reqs s)) = Inr (SuccessToken tok)"
  proof (intro allI impI)
    fix now tok req rest
    assume h: "reqs = (now, tok, req) # rest \<and> admitted now req s"
    with assms(2) have n: "req_agentname req = n" by simp
    with assms(1) h send_absent [of s req now cfg tok]
    have r: "fst (send cfg now tok req s) = Inr (SuccessToken tok)" by auto
    with h have hd: "hd (fst (sendAll cfg reqs s)) = Inr (SuccessToken tok)"
      by (simp add: sendAll_Cons del: sendAll.simps)
    from r h have "filter isCreated (fst (sendAll cfg reqs s)) \<noteq> []"
      by (simp add: sendAll_Cons del: sendAll.simps)
    with main have "length (filter isCreated (fst (sendAll cfg reqs s))) = 1"
      by (cases "filter isCreated (fst (sendAll cfg reqs s))") auto
    with hd show "length (filter isCreated (fst (sendAll cfg reqs s))) = 1
              \<and> hd (fst (sendAll cfg reqs s)) = Inr (SuccessToken tok)"
      by simp
  qed
  from main one first show ?thesis by blast
qed

theorem first_sends_create_at_most_one_witness:
  "length (filter isCreated (fst (sendAll exampleConfig
        [(1000, str ''a'', exampleRequest ''Nova1'' JUndefined ''hello''),
         (1001, str ''b'', exampleRequest ''Nova1'' JUndefined ''hello'')]
        (startup 0 0)))) = 1
   \<and> hd (fst (sendAll exampleConfig
        [(1000, str ''a'', exampleRequest ''Nova1'' JUndefined ''hello''),
         (1001, str ''b'', exampleRequest ''Nova1'' JUndefined ''hello'')]
        (startup 0 0))) = Inr (SuccessToken (str ''a''))"
proof -
  let ?req = "exampleRequest ''Nova1'' JUndefined ''hello''"
  let ?reqs = "[(1000, str ''a'', ?req), (1001, str ''b'', ?req)]"
  have g: "getStream (startup 0 0) (str ''Nova1'') = None"
    by (simp add: startup_def getStream_def logActivity_def)
  have n: "\<forall>(now, tok, req)\<in>set ?reqs. req_agentname req = str ''Nova1''"
    by (simp add: exampleRequest_def)
  have a: "admitted 1000 ?req (startup 0 0)"
    by (simp add: admitted_def exampleRequest_def validMessage_def startup_def logActivity_def
        checkIPStreamCreationLimit_def isValidAgentName_def isNameChar_def str_def)
  from first_sends_create_at_most_one [OF g n, of exampleConfig] a show ?thesis
    by blast
qed

section \<open>The daily reset\<close>

lemma dailyReset_at_midnight:
  "getHours cfg now = 0 \<Longrightarrow> getMinutes cfg now = 0 \<Longrightarrow>
   stats (dailyReset cfg now s) =
     (stats s)\<lparr>totalStreamsToday := 0, peakConcurrentViewers := 0, totalMessagesToday := 0,
               lastReset := now\<rparr>
   \<and> allTimePeakViewers (stats (dailyReset cfg now s)) = allTimePeakViewers (stats s)"
  by (simp add: dailyReset_def)

lemma dailyReset_otherwise:
  "\<not> (getHours cfg now = 0 \<and> getMinutes cfg now = 0) \<Longrightarrow> dailyReset cfg now s = s"
  by (auto simp: dailyReset_def)

lemma both_zero:
  fixes x y :: int
  shows "0 \<le> x \<Longrightarrow> 0 \<le> y \<Longrightarrow> (x = 0 \<and> y = 0) \<longleftrightarrow> 60 * x + y = 0"
  by linarith

lemma first_minute:
  fixes k r :: int
  shows "0 \<le> k \<Longrightarrow> 0 \<le> r \<Longrightarrow> r < 60000 \<Longrightarrow> k = 0 \<longleftrightarrow> 60000 * k + r < 60000"
  by linarith

lemma minute_of_day:
  fixes t :: int
  shows "((t div 3600000) mod 24 = 0 \<and> (t div 60000) mod 60 = 0) \<longleftrightarrow> t mod 86400000 < 60000"
proof -
  let ?m = "t div 60000"
  have h: "t div 3600000 = ?m div 60"
    by (simp add: zdiv_zmult2_eq [symmetric])
  have m: "?m mod 1440 = 60 * ((?m div 60) mod 24) + ?m mod 60"
    using zmod_zmult2_eq [where a = "?m" and b = 60 and c = 24] by simp
  have t: "t mod 86400000 = 60000 * (?m mod 1440) + t mod 60000"
    using zmod_zmult2_eq [where a = t and b = 60000 and c = 1440] by simp
  have "((?m div 60) mod 24 = 0 \<and> ?m mod 60 = 0) \<longleftrightarrow> 60 * ((?m div 60) mod 24) + ?m mod 60 = 0"
    by (rule both_zero) simp_all
  also have "\<dots> \<longleftrightarrow> ?m mod 1440 = 0"
    by (simp only: m)
  also have "\<dots> \<longleftrightarrow> 60000 * (?m mod 1440) + t mod 60000 < 60000"
    by (rule first_minute) simp_all
  also have "\<dots> \<longleftrightarrow> t mod 86400000 < 60000"
    by (simp only: t)
  finally show ?thesis unfolding h .
qed

text \<open>
  The reset happens at a tick exactly when the local time of day of its clock reading lies
  in the first minute after midnight.
\<close>

lemma dailyReset_fires_iff:
  "getHours cfg now = 0 \<and> getMinutes cfg now = 0 \<longleftrightarrow> (now + tzOffset cfg) mod 86400000 < 60000"
proof -
  have z: "nat x = 0 \<longleftrightarrow> x = 0" if "0 \<le> x" for x :: int
    using that by simp
  have "getHours cfg now = 0 \<longleftrightarrow> ((now + tzOffset cfg) div 3600000) mod 24 = 0"
    unfolding getHours_def by (rule z) simp
  moreover have "getMinutes cfg now = 0 \<longleftrightarrow> ((now + tzOffset cfg) div 60000) mod 60 = 0"
    unfolding getMinutes_def by (rule z) simp
  ultimately show ?thesis
    using minute_of_day [of "now + tzOffset cfg"] by simp
qed

text \<open>
  Claim C8. The reset is to happen exactly once per calendar-day boundary. The timer body
  resets only at a tick whose local clock reads 00:00. Two consecutive ticks, the second
  one millisecond late: the first reads 23:59:59.999, the second 00:01:00.000 of the next
  day. Neither resets, and the counters of the old day stay.
\<close>

theorem daily_reset_skipped_by_late_tick:
  "getHours exampleConfig 86399999 = 23 \<and> getMinutes exampleConfig 86399999 = 59
   \<and> getHours exampleConfig 86460000 = 0 \<and> getMinutes exampleConfig 86460000 = 1
   \<and> (86460000::int) - 86399999 = 60001
   \<and> (86399999 + tzOffset exampleConfig) div 86400000 = 0
   \<and> (86460000 + tzOffset exampleConfig) div 86400000 = 1
   \<and> run exampleConfig [ADailyReset 86399999, ADailyReset 86460000] exampleLive = exampleLive
   \<and> totalStreamsToday (stats exampleLive) = 1
   \<and> totalMessagesToday (stats exampleLive) = 1
   \<and> lastReset (stats exampleLive) = 0"
  by (simp add: getHours_def getMinutes_def exampleConfig_def dailyReset_def exampleLive_eq)

end
